theory Spec2Isabelle
  imports Complex_Main
begin

section \<open>Strings\<close>

text \<open>
  A Python \<open>str\<close> is a sequence of Unicode code points. It is modelled as a list of
  code points (natural numbers), so that no input string is excluded; \<open>lit\<close> turns an
  ASCII literal into such a list.
\<close>

type_synonym pystr = "nat list"

definition lit :: "string \<Rightarrow> pystr" where
  "lit s = map of_char s"

section \<open>The graph (networkx.DiGraph)\<close>

text \<open>
  \<open>loader.load_graph\<close> builds an \<open>nx.DiGraph\<close>: an insertion-ordered dictionary from node
  identifiers to attribute dictionaries, and an insertion-ordered adjacency from ordered
  pairs of nodes to edge attribute dictionaries. Both dictionaries are association lists
  here, in iteration order. An attribute that is absent from its dictionary is \<open>None\<close>
  (a node that only \<open>add_edge\<close> created has no attribute at all).
\<close>

type_synonym node_id = int

record node_data =
  domain :: "pystr option"
  description :: "pystr option"
  crawl_count :: "int option"
  depth :: "int option"

record edge_data =
  weight :: "int option"

record graph =
  gnodes :: "(node_id \<times> node_data) list"
  gedges :: "((node_id \<times> node_id) \<times> edge_data) list"

text \<open>
  The invariant of a DiGraph: keys of a dictionary are unique, and both ends of an edge
  are nodes (\<open>add_edge\<close> creates the missing ones).
\<close>

definition wf_graph :: "graph \<Rightarrow> bool" where
  "wf_graph g \<longleftrightarrow>
     distinct (map fst (gnodes g)) \<and> distinct (map fst (gedges g)) \<and>
     list_all (\<lambda>e. fst (fst e) \<in> fst ` set (gnodes g) \<and> snd (fst e) \<in> fst ` set (gnodes g))
       (gedges g)"

text \<open>\<open>data.get("weight", 1)\<close>\<close>

definition get_weight :: "edge_data \<Rightarrow> int \<Rightarrow> int" where
  "get_weight data dflt = (case weight data of None \<Rightarrow> dflt | Some w \<Rightarrow> w)"

definition number_of_nodes :: "graph \<Rightarrow> nat" where
  "number_of_nodes g = length (gnodes g)"

definition number_of_edges :: "graph \<Rightarrow> nat" where
  "number_of_edges g = length (gedges g)"

subsection \<open>Graph objects and the operations of networkx on them\<close>

text \<open>
  Graphs are mutable objects. The store is the list of all graph objects allocated so
  far; a reference is an index into it. \<open>G.copy()\<close> allocates a new object holding the
  same nodes, edges and (copied) attribute dictionaries; \<open>remove_edges_from\<close> and
  \<open>remove_nodes_from\<close> update the object they are called on, in place.
\<close>

type_synonym ref = nat
type_synonym heap = "graph list"

datatype diagnostic =
  DbNotFound pystr | NotAFile pystr | DepthNotPositive int | MinWeightNegative int |
  LoadFailed | GraphEmpty | RootNotFound pystr

datatype error =
  ValueError pystr | NetworkXError | SystemExit int diagnostic

definition copy :: "heap \<Rightarrow> ref \<Rightarrow> heap \<times> ref" where
  "copy h G = (h @ [h ! G], length h)"

definition remove_edges_from :: "heap \<Rightarrow> ref \<Rightarrow> (node_id \<times> node_id) list \<Rightarrow> heap" where
  "remove_edges_from h G ebunch =
     h[G := (h ! G)\<lparr>gedges := filter (\<lambda>e. fst e \<notin> set ebunch) (gedges (h ! G))\<rparr>]"

text \<open>\<open>remove_nodes_from\<close> removes the nodes and every edge incident to one of them.\<close>

definition remove_nodes_from :: "heap \<Rightarrow> ref \<Rightarrow> node_id list \<Rightarrow> heap" where
  "remove_nodes_from h G ns =
     h[G := (h ! G)\<lparr>
       gnodes := filter (\<lambda>nd. fst nd \<notin> set ns) (gnodes (h ! G)),
       gedges := filter (\<lambda>e. fst (fst e) \<notin> set ns \<and> snd (fst e) \<notin> set ns) (gedges (h ! G))\<rparr>]"

text \<open>\<open>G.degree\<close> of a DiGraph is in-degree plus out-degree (a self-loop counts twice).\<close>

definition degree :: "graph \<Rightarrow> node_id \<Rightarrow> nat" where
  "degree g n =
     length (filter (\<lambda>e. fst (fst e) = n) (gedges g)) +
     length (filter (\<lambda>e. snd (fst e) = n) (gedges g))"

text \<open>\<open>nx.isolates(G)\<close>: the nodes of degree 0, in iteration order.\<close>

definition isolates :: "graph \<Rightarrow> node_id list" where
  "isolates g = map fst (filter (\<lambda>nd. degree g (fst nd) = 0) (gnodes g))"

definition has_node :: "graph \<Rightarrow> node_id \<Rightarrow> bool" where
  "has_node g n \<longleftrightarrow> n \<in> fst ` set (gnodes g)"

definition successors :: "graph \<Rightarrow> node_id \<Rightarrow> node_id list" where
  "successors g n = map (\<lambda>e. snd (fst e)) (filter (\<lambda>e. fst (fst e) = n) (gedges g))"

definition predecessors :: "graph \<Rightarrow> node_id \<Rightarrow> node_id list" where
  "predecessors g n = map (\<lambda>e. fst (fst e)) (filter (\<lambda>e. snd (fst e) = n) (gedges g))"

text \<open>
  \<open>G.subgraph(nodes).copy()\<close>: a new object holding the subgraph induced on the given
  nodes (those of them that are in \<open>G\<close>), with the edges of \<open>G\<close> between them. The copy
  lists them in the order of \<open>G\<close> here; networkx lists them in the order of the set when
  the set is less than half of the graph. Nothing below depends on that order.
\<close>

definition subgraph :: "graph \<Rightarrow> node_id set \<Rightarrow> graph" where
  "subgraph g ns =
     \<lparr>gnodes = filter (\<lambda>nd. fst nd \<in> ns) (gnodes g),
      gedges = filter (\<lambda>e. fst (fst e) \<in> ns \<and> snd (fst e) \<in> ns) (gedges g)\<rparr>"

definition subgraph_copy :: "heap \<Rightarrow> ref \<Rightarrow> node_id set \<Rightarrow> heap \<times> ref" where
  "subgraph_copy h G ns = (h @ [subgraph (h ! G) ns], length h)"

section \<open>loader.py: the filters\<close>

text \<open>
  Each filter takes the store and the reference of its argument and returns the store
  afterwards with either the error raised or the reference returned. What the source
  prints is not modelled.
\<close>

definition filter_by_weight :: "heap \<Rightarrow> ref \<Rightarrow> int \<Rightarrow> heap \<times> (error + ref)" where
  "filter_by_weight h G min_weight =
     (let edges_to_remove =
            map fst (filter (\<lambda>e. get_weight (snd e) 1 < min_weight) (gedges (h ! G)));
          (h1, G_filtered) = copy h G;
          h2 = remove_edges_from h1 G_filtered edges_to_remove
      in (h2, Inr G_filtered))"

definition remove_isolated :: "heap \<Rightarrow> ref \<Rightarrow> heap \<times> (error + ref)" where
  "remove_isolated h G =
     (let isolated = isolates (h ! G);
          (h1, G_filtered) = copy h G;
          h2 = remove_nodes_from h1 G_filtered isolated
      in (h2, Inr G_filtered))"

text \<open>The search for the root: the first node, in iteration order, with the domain.\<close>

fun find_root :: "(node_id \<times> node_data) list \<Rightarrow> pystr \<Rightarrow> node_id option" where
  "find_root [] root_domain = None"
| "find_root ((node_id, data) # rest) root_domain =
     (if domain data = Some root_domain then Some node_id else find_root rest root_domain)"

text \<open>
  One round of the loop over \<open>range(depth)\<close>. \<open>G.successors(node)\<close> and
  \<open>G.predecessors(node)\<close> raise \<open>NetworkXError\<close> for a node that is not in the graph.
\<close>

definition hop :: "graph \<Rightarrow> node_id set \<Rightarrow> error + node_id set" where
  "hop g nodes =
     (if \<exists>node\<in>nodes. \<not> has_node g node
      then Inl NetworkXError
      else Inr (nodes \<union> (\<Union>node\<in>nodes. set (successors g node) \<union> set (predecessors g node))))"

fun hops :: "graph \<Rightarrow> nat \<Rightarrow> node_id set \<Rightarrow> error + node_id set" where
  "hops g 0 nodes = Inr nodes"
| "hops g (Suc k) nodes =
     (case hop g nodes of Inl e \<Rightarrow> Inl e | Inr nodes' \<Rightarrow> hops g k nodes')"

definition not_found_message :: "pystr \<Rightarrow> pystr" where
  "not_found_message root_domain =
     lit ''Domain '' @ [39] @ root_domain @ [39] @ lit '' not found in graph''"

definition extract_subgraph :: "heap \<Rightarrow> ref \<Rightarrow> pystr \<Rightarrow> int \<Rightarrow> heap \<times> (error + ref)" where
  "extract_subgraph h G root_domain dpth =
     (case find_root (gnodes (h ! G)) root_domain of
        None \<Rightarrow> (h, Inl (ValueError (not_found_message root_domain)))
      | Some root_id \<Rightarrow>
          (case hops (h ! G) (nat dpth) {root_id} of
             Inl e \<Rightarrow> (h, Inl e)
           | Inr nodes \<Rightarrow>
               (let (h1, sub) = subgraph_copy h G nodes in (h1, Inr sub))))"

text \<open>
  The specification's reading of one round, to compare \<open>hop\<close> with: the round adds all
  direct successors and predecessors of every node currently included.
\<close>

definition spec_round :: "graph \<Rightarrow> node_id set \<Rightarrow> node_id set" where
  "spec_round g S =
     S \<union> {v. \<exists>u\<in>S. (u, v) \<in> fst ` set (gedges g)} \<union> {u. \<exists>v\<in>S. (u, v) \<in> fst ` set (gedges g)}"

text \<open>
  What "a new graph, the input not mutated" means on the store: every object that existed
  before the call holds what it held, and a returned reference is an object allocated by
  the call.
\<close>

definition returns_new_graph :: "heap \<Rightarrow> heap \<times> (error + ref) \<Rightarrow> bool" where
  "returns_new_graph h out \<longleftrightarrow>
     take (length h) (fst out) = h \<and>
     (case snd out of
        Inl e \<Rightarrow> fst out = h
      | Inr r \<Rightarrow> length h \<le> r \<and> r < length (fst out))"

text \<open>The graph of the specification's scenario, with the attributes the loader gives.\<close>

definition loaded_node :: "string \<Rightarrow> node_data" where
  "loaded_node d =
     \<lparr>domain = Some (lit d), description = Some [], crawl_count = Some 1, depth = Some 0\<rparr>"

definition scenario_graph :: graph where
  "scenario_graph =
     \<lparr>gnodes = [(1, loaded_node ''a.com''), (2, loaded_node ''b.com''), (3, loaded_node ''c.com'')],
      gedges = [((1, 2), \<lparr>weight = Some 1\<rparr>), ((2, 3), \<lparr>weight = Some 5\<rparr>)]\<rparr>"

section \<open>main.py: validation of the command line\<close>

record args =
  args_db :: pystr
  args_output :: pystr
  args_min_weight :: "int option"
  args_remove_isolated :: bool
  args_root :: "pystr option"
  args_depth :: int
  args_layout :: pystr
  args_stats :: bool

text \<open>
  \<open>validate_arguments\<close> prints a diagnostic and calls \<open>sys.exit(1)\<close>, or returns. The two
  questions it asks the file system (\<open>Path.exists\<close>, \<open>Path.is_file\<close>) are parameters.
\<close>

definition validate_arguments :: "(pystr \<Rightarrow> bool) \<Rightarrow> (pystr \<Rightarrow> bool) \<Rightarrow> args \<Rightarrow> error + unit" where
  "validate_arguments path_exists path_is_file a =
     (if \<not> path_exists (args_db a) then Inl (SystemExit 1 (DbNotFound (args_db a)))
      else if \<not> path_is_file (args_db a) then Inl (SystemExit 1 (NotAFile (args_db a)))
      else if args_depth a < 1 then Inl (SystemExit 1 (DepthNotPositive (args_depth a)))
      else (case args_min_weight a of
              None \<Rightarrow> Inr ()
            | Some w \<Rightarrow> if w < 0 then Inl (SystemExit 1 (MinWeightNegative w)) else Inr ()))"

text \<open>
  \<open>main\<close>, from the validation of the arguments to the end of the filters; the statistics
  and the export that follow are not modelled. The parsed arguments are given.
  \<open>load_graph\<close> stands for \<open>loader.load_graph\<close> on the database behind it, a parameter: it
  raises or returns the graph, which becomes the first object of an empty store. The
  result carries the calls made to the loader and to the filters, in order.
\<close>

datatype call = LoadGraph pystr | FilterByWeight int | RemoveIsolated | ExtractSubgraph pystr int

type_synonym run = "call list \<times> heap \<times> (error + ref)"

text \<open>\<open>if cond: G = f(G)\<close>, after what ran before; an error raised earlier has ended the run.\<close>

definition then_filter ::
  "run \<Rightarrow> bool \<Rightarrow> call \<Rightarrow> (heap \<Rightarrow> ref \<Rightarrow> heap \<times> (error + ref)) \<Rightarrow> run"
where
  "then_filter r cond c f =
     (case r of
        (calls, h, Inl e) \<Rightarrow> (calls, h, Inl e)
      | (calls, h, Inr G) \<Rightarrow>
          if cond then (case f h G of (h', res) \<Rightarrow> (calls @ [c], h', res))
          else (calls, h, Inr G))"

text \<open>
  The extraction inside \<open>try ... except ValueError\<close>: the \<open>ValueError\<close> is printed and the
  program exits with status 1; any other exception propagates.
\<close>

definition extract_or_exit :: "pystr \<Rightarrow> int \<Rightarrow> heap \<Rightarrow> ref \<Rightarrow> heap \<times> (error + ref)" where
  "extract_or_exit root_domain dpth h G =
     (case extract_subgraph h G root_domain dpth of
        (h', Inl (ValueError m)) \<Rightarrow> (h', Inl (SystemExit 1 (RootNotFound m)))
      | (h', Inl e) \<Rightarrow> (h', Inl e)
      | (h', Inr r) \<Rightarrow> (h', Inr r))"

definition main ::
  "(pystr \<Rightarrow> bool) \<Rightarrow> (pystr \<Rightarrow> bool) \<Rightarrow> (pystr \<Rightarrow> error + graph) \<Rightarrow> args \<Rightarrow> run"
where
  "main path_exists path_is_file load_graph a =
     (case validate_arguments path_exists path_is_file a of
        Inl e \<Rightarrow> ([], [], Inl e)
      | Inr u \<Rightarrow>
          (case load_graph (args_db a) of
             Inl e \<Rightarrow> ([LoadGraph (args_db a)], [], Inl (SystemExit 1 LoadFailed))
           | Inr g \<Rightarrow>
               if number_of_nodes g = 0
               then ([LoadGraph (args_db a)], [g], Inl (SystemExit 1 GraphEmpty))
               else
                 (let loaded = ([LoadGraph (args_db a)], [g], Inr 0);
                      weighted =
                        (case args_min_weight a of
                           None \<Rightarrow> loaded
                         | Some w \<Rightarrow>
                             then_filter loaded (w \<noteq> 0) (FilterByWeight w)
                               (\<lambda>h G. filter_by_weight h G w));
                      connected =
                        then_filter weighted (args_remove_isolated a) RemoveIsolated
                          remove_isolated;
                      extracted =
                        (case args_root a of
                           None \<Rightarrow> connected
                         | Some root_domain \<Rightarrow>
                             then_filter connected (root_domain \<noteq> [])
                               (ExtractSubgraph root_domain (args_depth a))
                               (extract_or_exit root_domain (args_depth a)))
                  in extracted)))"

text \<open>For the examples: a database that holds the graph of the scenario.\<close>

definition scenario_db :: "pystr \<Rightarrow> error + graph" where
  "scenario_db path = Inr scenario_graph"

definition any_path :: "pystr \<Rightarrow> bool" where
  "any_path path \<longleftrightarrow> True"

definition scenario_args :: "int option \<Rightarrow> args" where
  "scenario_args w =
     \<lparr>args_db = lit ''crawler.db'', args_output = lit ''./graph_data'',
      args_min_weight = w, args_remove_isolated = False, args_root = None,
      args_depth = 2, args_layout = lit ''sfdp'', args_stats = False\<rparr>"

section \<open>renderer.py: positions\<close>

text \<open>
  Coordinates are Python floats. They are modelled as real numbers: the arithmetic of the
  model is exact, and what rounding, overflow and NaN do to a float is outside it.
  A position dictionary is an association list in iteration order.
\<close>

type_synonym positions = "(node_id \<times> real \<times> real) list"

text \<open>
  \<open>min\<close> and \<open>max\<close> of a list. On the empty list Python raises \<open>ValueError\<close>;
  \<open>normalize_positions\<close> returns before it reaches them when the dictionary is empty, so
  the value given for \<open>[]\<close> here is never used.
\<close>

fun py_min :: "real list \<Rightarrow> real" where
  "py_min (x # xs) = fold min xs x"
| "py_min [] = 0"

fun py_max :: "real list \<Rightarrow> real" where
  "py_max (x # xs) = fold max xs x"
| "py_max [] = 0"

text \<open>
  \<open>random.uniform(a, b)\<close> is \<open>a + (b - a) * random()\<close>. The outputs of \<open>random()\<close> are a
  sequence \<open>draws\<close>, read in order from an index that the loop advances.
\<close>

definition uniform :: "real \<Rightarrow> real \<Rightarrow> real \<Rightarrow> real" where
  "uniform a b u = a + (b - a) * u"

fun normalize_loop ::
  "positions \<Rightarrow> real \<Rightarrow> real \<Rightarrow> real \<Rightarrow> real \<Rightarrow> real \<Rightarrow> real \<Rightarrow> (nat \<Rightarrow> real) \<Rightarrow> nat \<Rightarrow> positions"
where
  "normalize_loop [] min_x range_x min_y range_y scale jitter draws i = []"
| "normalize_loop ((node_id, (x, y)) # rest) min_x range_x min_y range_y scale jitter draws i =
     (let norm_x = (x - min_x) / range_x * scale;
          norm_y = (y - min_y) / range_y * scale
      in if jitter > 0
         then (node_id,
                (norm_x + uniform (- jitter) jitter (draws i),
                 norm_y + uniform (- jitter) jitter (draws (i + 1)))) #
              normalize_loop rest min_x range_x min_y range_y scale jitter draws (i + 2)
         else (node_id, (norm_x, norm_y)) #
              normalize_loop rest min_x range_x min_y range_y scale jitter draws i)"

text \<open>
  An argument the caller leaves out is \<open>None\<close>, and the parameter then takes the default of
  the \<open>def\<close> line: \<open>scale: float = 10.0\<close>, \<open>jitter: float = 0.0\<close>.
\<close>

definition normalize_positions ::
  "positions \<Rightarrow> real option \<Rightarrow> real option \<Rightarrow> (nat \<Rightarrow> real) \<Rightarrow> positions"
where
  "normalize_positions pos scale_arg jitter_arg draws =
     (let scale = (case scale_arg of None \<Rightarrow> 10 | Some s \<Rightarrow> s);
          jitter = (case jitter_arg of None \<Rightarrow> 0 | Some j \<Rightarrow> j)
      in if pos = [] then []
         else
           (let xs = map (\<lambda>p. fst (snd p)) pos;
                ys = map (\<lambda>p. snd (snd p)) pos;
                min_x = py_min xs; max_x = py_max xs;
                min_y = py_min ys; max_y = py_max ys;
                range_x = (if max_x \<noteq> min_x then max_x - min_x else 1);
                range_y = (if max_y \<noteq> min_y then max_y - min_y else 1)
            in normalize_loop pos min_x range_x min_y range_y scale jitter draws 0))"

text \<open>
  \<open>render_cosmograph_csv\<close>, up to the positions it hands to the two exporters. Its
  defaults are \<open>scale: float = 50.0\<close> and \<open>jitter: float = 0.05\<close>, and it passes both to
  \<open>normalize_positions\<close> by name. \<open>positions\<close> is what \<open>compute_layout\<close> returned: the layout
  algorithms are not part of the model.
\<close>

definition render_cosmograph_csv ::
  "positions \<Rightarrow> real option \<Rightarrow> real option \<Rightarrow> (nat \<Rightarrow> real) \<Rightarrow> positions"
where
  "render_cosmograph_csv positions scale_arg jitter_arg draws =
     (let scale = (case scale_arg of None \<Rightarrow> 50 | Some s \<Rightarrow> s);
          jitter = (case jitter_arg of None \<Rightarrow> 5 / 100 | Some j \<Rightarrow> j);
          normalized_positions = normalize_positions positions (Some scale) (Some jitter) draws
      in normalized_positions)"

text \<open>
  The arithmetic of the model is exact. A float computation differs from it in kind when
  a result leaves the range of the finite floats: it becomes an infinity and, further
  on, a NaN. \<open>max_float\<close> is the largest finite float. When every coordinate, the scale and
  the jitter are at most half of it in magnitude, no difference, quotient, product or sum
  that \<open>normalize_positions\<close> forms leaves that range.
\<close>

definition max_float :: real where
  "max_float = (2 - 1 / 2 ^ 52) * 2 ^ 1023"

definition within_float_range :: "positions \<Rightarrow> real \<Rightarrow> real \<Rightarrow> bool" where
  "within_float_range pos S j \<longleftrightarrow>
     list_all (\<lambda>p. \<bar>fst (snd p)\<bar> \<le> max_float / 2 \<and> \<bar>snd (snd p)\<bar> \<le> max_float / 2) pos \<and>
     \<bar>S\<bar> \<le> max_float / 2 \<and> \<bar>j\<bar> \<le> max_float / 2"

text \<open>A generator whose every output is one half, for the examples.\<close>

definition half_draws :: "nat \<Rightarrow> real" where
  "half_draws i = 1 / 2"

section \<open>renderer.py: the colour of a node\<close>

text \<open>\<open>int(x)\<close> of a float truncates towards zero.\<close>

definition py_int :: "real \<Rightarrow> int" where
  "py_int x = (if 0 \<le> x then \<lfloor>x\<rfloor> else \<lceil>x\<rceil>)"

text \<open>The three branches on \<open>normalized\<close>: the channels red, green and blue.\<close>

definition gradient :: "real \<Rightarrow> int \<times> int \<times> int" where
  "gradient normalized =
     (if normalized \<le> 33 / 100 then
        (let factor = normalized / (33 / 100) in (py_int (factor * 255), 255, 0))
      else if normalized \<le> 66 / 100 then
        (let factor = (normalized - 33 / 100) / (33 / 100)
         in (255, py_int (255 * (1 - factor * (5 / 10))), 0))
      else
        (let factor = (normalized - 66 / 100) / (34 / 100)
         in (255, py_int (128 * (1 - factor)), 0)))"

text \<open>The format \<open>02x\<close>: lower-case hexadecimal, a sign when negative, zero-padded to width 2.\<close>

definition hex_digit :: "nat \<Rightarrow> nat" where
  "hex_digit d = (if d < 10 then 48 + d else 87 + d)"

fun hex_nat :: "nat \<Rightarrow> pystr" where
  "hex_nat n = (if n < 16 then [hex_digit n] else hex_nat (n div 16) @ [hex_digit (n mod 16)])"

declare hex_nat.simps [simp del]

definition format_02x :: "int \<Rightarrow> pystr" where
  "format_02x v =
     (let s = (if v < 0 then 45 # hex_nat (nat (- v)) else hex_nat (nat v))
      in replicate (2 - length s) 48 @ s)"

text \<open>\<open>math.log2\<close> raises \<open>ValueError\<close> for an argument that is not positive.\<close>

definition calculate_node_color :: "int \<Rightarrow> error + pystr" where
  "calculate_node_color dgr =
     (if dgr + 1 \<le> 0 then Inl (ValueError (lit ''math domain error''))
      else
        (let normalized = min (log 2 (real_of_int (dgr + 1)) / 6) 1;
             (red, green, blue) = gradient normalized
         in Inr (35 # format_02x red @ format_02x green @ format_02x blue)))"



section \<open>renderer.py: sanitizing a domain name\<close>

text \<open>
  The white space that \<open>str.strip()\<close> removes: the code points for which \<open>str.isspace\<close>
  holds (tab to carriage return, the four separators U+001C to U+001F, the space, and
  the Unicode spaces beyond ASCII).
\<close>

definition isspace :: "nat \<Rightarrow> bool" where
  "isspace c \<longleftrightarrow>
     (9 \<le> c \<and> c \<le> 13) \<or> (28 \<le> c \<and> c \<le> 32) \<or> c = 133 \<or> c = 160 \<or> c = 5760 \<or>
     (8192 \<le> c \<and> c \<le> 8202) \<or> c = 8232 \<or> c = 8233 \<or> c = 8239 \<or> c = 8287 \<or> c = 12288"

definition strip :: "pystr \<Rightarrow> pystr" where
  "strip s = rev (dropWhile isspace (rev (dropWhile isspace s)))"

text \<open>The letters and digits of ASCII, which are also the ranges of the regular expression.\<close>

definition ascii_alnum :: "nat \<Rightarrow> bool" where
  "ascii_alnum c \<longleftrightarrow> (48 \<le> c \<and> c \<le> 57) \<or> (65 \<le> c \<and> c \<le> 90) \<or> (97 \<le> c \<and> c \<le> 122)"

text \<open>
  \<open>str.isalnum()\<close>: the string is not empty and every character is alphanumeric. For a
  code point beyond ASCII that is a property of the Unicode database, the parameter \<open>uni\<close>.
\<close>

definition isalnum :: "(nat \<Rightarrow> bool) \<Rightarrow> pystr \<Rightarrow> bool" where
  "isalnum uni s \<longleftrightarrow> s \<noteq> [] \<and> list_all (\<lambda>c. if c < 128 then ascii_alnum c else uni c) s"

text \<open>\<open>s.split(sep)\<close> for a separator of one character, and \<open>sep.join(parts)\<close>.\<close>

fun split :: "nat \<Rightarrow> pystr \<Rightarrow> pystr list" where
  "split sep [] = [[]]"
| "split sep (c # cs) =
     (if c = sep then [] # split sep cs
      else (case split sep cs of
              [] \<Rightarrow> [[c]]
            | part # parts \<Rightarrow> (c # part) # parts))"

fun join :: "pystr \<Rightarrow> pystr list \<Rightarrow> pystr" where
  "join sep [] = []"
| "join sep [part] = part"
| "join sep (part # parts) = part @ sep @ join sep parts"

text \<open>\<open>str(n)\<close> of an integer.\<close>

fun str_nat :: "nat \<Rightarrow> pystr" where
  "str_nat n = (if n < 10 then [48 + n] else str_nat (n div 10) @ [48 + n mod 10])"

declare str_nat.simps [simp del]

definition str_int :: "int \<Rightarrow> pystr" where
  "str_int i = (if i < 0 then 45 # str_nat (nat (- i)) else str_nat (nat i))"

text \<open>
  \<open>sanitize_domain_name\<close>. The argument is \<open>None\<close> or a string; \<open>hash\<close> is Python's hash of a
  string, a parameter (it is salted per process).
\<close>

definition sanitize_domain_name :: "(nat \<Rightarrow> bool) \<Rightarrow> (pystr \<Rightarrow> int) \<Rightarrow> pystr option \<Rightarrow> pystr" where
  "sanitize_domain_name uni hash dmn =
     (case dmn of
        None \<Rightarrow> lit ''unknown''
      | Some d \<Rightarrow>
          if d = [] then lit ''unknown''
          else
            (let cleaned = strip d;
                 cleaned =
                   (if 44 \<in> set cleaned \<and> 46 \<notin> set cleaned then
                      (let parts = split 44 cleaned
                       in if length parts \<ge> 2 \<and>
                             list_all (\<lambda>part. isalnum uni part \<or> 45 \<in> set part) parts
                          then join [46] parts else cleaned)
                    else cleaned);
                 cleaned = filter (\<lambda>c. ascii_alnum c \<or> c = 46 \<or> c = 45) cleaned
             in if cleaned = [] \<or> cleaned \<in> set [[46], [45]]
                then lit ''invalid_domain_'' @ str_int (hash d mod 10000)
                else cleaned))"

text \<open>
  The label of a node in \<open>export_nodes_to_csv\<close>:
  \<open>sanitize_domain_name(node_data.get("domain", str(node_id)))\<close>.
\<close>

definition node_label :: "(nat \<Rightarrow> bool) \<Rightarrow> (pystr \<Rightarrow> int) \<Rightarrow> node_id \<Rightarrow> node_data \<Rightarrow> pystr" where
  "node_label uni hash node_id data =
     (let raw_domain = (case domain data of None \<Rightarrow> str_int node_id | Some d \<Rightarrow> d)
      in sanitize_domain_name uni hash (Some raw_domain))"

text \<open>
  For the examples: a Unicode database in which no code point beyond ASCII is
  alphanumeric, and a hash function that is constant.
\<close>

definition ascii_only :: "nat \<Rightarrow> bool" where
  "ascii_only c \<longleftrightarrow> False"

definition sample_hash :: "pystr \<Rightarrow> int" where
  "sample_hash s = - 12345"

section \<open>Lemmas about the graph operations\<close>

lemma distinct_keys_filter:
  "distinct (map fst es) \<Longrightarrow>
     filter (\<lambda>e. fst e \<notin> set (map fst (filter P es))) es = filter (\<lambda>e. \<not> P e) es"
proof -
  assume d: "distinct (map fst es)"
  have "\<And>e. e \<in> set es \<Longrightarrow> (fst e \<in> fst ` {x \<in> set es. P x}) = P e"
  proof -
    fix e assume e: "e \<in> set es"
    have inj: "inj_on fst (set es)" using d by (simp add: distinct_map)
    show "(fst e \<in> fst ` {x \<in> set es. P x}) = P e"
    proof
      assume "fst e \<in> fst ` {x \<in> set es. P x}"
      then obtain x where x: "x \<in> set es" "P x" "fst e = fst x" by auto
      with inj e have "e = x" by (auto dest: inj_onD)
      with x show "P e" by simp
    next
      assume "P e" with e show "fst e \<in> fst ` {x \<in> set es. P x}" by auto
    qed
  qed
  then show ?thesis by (intro filter_cong) auto
qed

lemma filter_by_weight_run:
  assumes "G < length h"
  shows "filter_by_weight h G w =
    (h @ [(h ! G)\<lparr>gedges := filter (\<lambda>e. fst e \<notin> set (map fst (filter (\<lambda>e. get_weight (snd e) 1 < w) (gedges (h ! G))))) (gedges (h ! G))\<rparr>],
     Inr (length h))"
  using assms by (simp add: filter_by_weight_def copy_def remove_edges_from_def Let_def nth_append)

lemma filter_by_weight_value:
  assumes "G < length h" "distinct (map fst (gedges (h ! G)))"
  shows "filter_by_weight h G w =
    (h @ [(h ! G)\<lparr>gedges := filter (\<lambda>e. w \<le> get_weight (snd e) 1) (gedges (h ! G))\<rparr>],
     Inr (length h))"
  unfolding filter_by_weight_run [OF assms(1)] distinct_keys_filter [OF assms(2)]
  by (simp add: not_less)

lemma find_root_None: "find_root nds d = None \<longleftrightarrow> (\<forall>nd\<in>set nds. domain (snd nd) \<noteq> Some d)"
  by (induction nds d rule: find_root.induct) auto

lemma find_root_first:
  "i < length nds \<Longrightarrow> domain (snd (nds ! i)) = Some d \<Longrightarrow>
   (\<forall>j<i. domain (snd (nds ! j)) \<noteq> Some d) \<Longrightarrow> find_root nds d = Some (fst (nds ! i))"
proof (induction nds d arbitrary: i rule: find_root.induct)
  case (1 root_domain)
  then show ?case by simp
next
  case (2 node_id data rest root_domain)
  show ?case
  proof (cases i)
    case 0
    with 2 show ?thesis by simp
  next
    case (Suc k)
    from 2(4) Suc have h0: "domain data \<noteq> Some root_domain" by auto
    from 2(4) Suc have hk: "\<forall>j<k. domain (snd (rest ! j)) \<noteq> Some root_domain" by auto
    from 2(1) [OF h0, of k] 2(2,3) Suc hk h0 show ?thesis by simp
  qed
qed

lemma hop_spec:
  assumes "wf_graph g" "S \<subseteq> fst ` set (gnodes g)"
  shows "hop g S = Inr (spec_round g S)"
proof -
  have "\<not> (\<exists>node\<in>S. \<not> has_node g node)" using assms(2) by (auto simp: has_node_def)
  moreover have "(\<Union>node\<in>S. set (successors g node) \<union> set (predecessors g node)) =
     {v. \<exists>u\<in>S. (u, v) \<in> fst ` set (gedges g)} \<union> {u. \<exists>v\<in>S. (u, v) \<in> fst ` set (gedges g)}"
    by (force simp: successors_def predecessors_def image_iff)
  ultimately show ?thesis by (simp add: hop_def spec_round_def Un_assoc)
qed

lemma wf_edge_ends:
  assumes "wf_graph g" "(u, v) \<in> fst ` set (gedges g)"
  shows "u \<in> fst ` set (gnodes g)" and "v \<in> fst ` set (gnodes g)"
proof -
  from assms(2) obtain e where e: "e \<in> set (gedges g)" "fst e = (u, v)" by auto
  from assms(1) e(1) have "fst (fst e) \<in> fst ` set (gnodes g) \<and> snd (fst e) \<in> fst ` set (gnodes g)"
    unfolding wf_graph_def list_all_iff by blast
  with e(2) show "u \<in> fst ` set (gnodes g)" and "v \<in> fst ` set (gnodes g)" by simp_all
qed

lemma spec_round_nodes:
  assumes "wf_graph g" "S \<subseteq> fst ` set (gnodes g)"
  shows "spec_round g S \<subseteq> fst ` set (gnodes g)"
proof
  fix x assume "x \<in> spec_round g S"
  then consider "x \<in> S" | u where "(u, x) \<in> fst ` set (gedges g)" | v where "(x, v) \<in> fst ` set (gedges g)"
    unfolding spec_round_def by blast
  then show "x \<in> fst ` set (gnodes g)"
  proof cases
    case 1 with assms(2) show ?thesis by blast
  next
    case 2 then show ?thesis by (rule wf_edge_ends(2) [OF assms(1)])
  next
    case 3 then show ?thesis by (rule wf_edge_ends(1) [OF assms(1)])
  qed
qed

lemma hops_spec:
  "wf_graph g \<Longrightarrow> S \<subseteq> fst ` set (gnodes g) \<Longrightarrow> hops g k S = Inr ((spec_round g ^^ k) S)"
proof (induction k arbitrary: S)
  case 0
  then show ?case by simp
next
  case (Suc k)
  from Suc.prems have "hop g S = Inr (spec_round g S)" by (rule hop_spec)
  moreover from Suc.prems have "spec_round g S \<subseteq> fst ` set (gnodes g)" by (rule spec_round_nodes)
  ultimately show ?case using Suc.IH [of "spec_round g S"] Suc.prems(1)
    by (simp add: funpow_swap1)
qed


lemma isolates_iff: "n \<in> set (isolates g) \<longleftrightarrow> n \<in> fst ` set (gnodes g) \<and> degree g n = 0"
  by (auto simp: isolates_def)

lemma edge_end_degree:
  assumes "e \<in> set (gedges g)"
  shows "degree g (fst (fst e)) \<noteq> 0" and "degree g (snd (fst e)) \<noteq> 0"
proof -
  from assms have "filter (\<lambda>x. fst (fst x) = fst (fst e)) (gedges g) \<noteq> []"
    by (auto simp: filter_empty_conv)
  then show "degree g (fst (fst e)) \<noteq> 0" by (simp add: degree_def)
  from assms have "filter (\<lambda>x. snd (fst x) = snd (fst e)) (gedges g) \<noteq> []"
    by (auto simp: filter_empty_conv)
  then show "degree g (snd (fst e)) \<noteq> 0" by (simp add: degree_def)
qed

lemma isolates_no_edges:
  "filter (\<lambda>e. fst (fst e) \<notin> set (isolates g) \<and> snd (fst e) \<notin> set (isolates g)) (gedges g) = gedges g"
proof -
  have "\<And>e. e \<in> set (gedges g) \<Longrightarrow> fst (fst e) \<notin> set (isolates g) \<and> snd (fst e) \<notin> set (isolates g)"
    using edge_end_degree by (simp add: isolates_iff)
  then show ?thesis by (simp add: filter_id_conv)
qed

lemma isolates_nodes:
  "filter (\<lambda>nd. fst nd \<notin> set (isolates g)) (gnodes g) = filter (\<lambda>nd. degree g (fst nd) \<noteq> 0) (gnodes g)"
  by (rule filter_cong) (auto simp: isolates_iff)

lemma remove_isolated_value:
  assumes "G < length h"
  shows "remove_isolated h G =
    (h @ [(h ! G)\<lparr>gnodes := filter (\<lambda>nd. degree (h ! G) (fst nd) \<noteq> 0) (gnodes (h ! G))\<rparr>],
     Inr (length h))"
proof -
  have "remove_isolated h G =
    (h @ [(h ! G)\<lparr>gnodes := filter (\<lambda>nd. fst nd \<notin> set (isolates (h ! G))) (gnodes (h ! G)),
         gedges := filter (\<lambda>e. fst (fst e) \<notin> set (isolates (h ! G)) \<and> snd (fst e) \<notin> set (isolates (h ! G))) (gedges (h ! G))\<rparr>],
     Inr (length h))"
    using assms by (simp add: remove_isolated_def copy_def remove_nodes_from_def Let_def nth_append)
  then show ?thesis by (simp only: isolates_no_edges isolates_nodes) simp
qed

lemma degree_gnodes_update: "degree (g\<lparr>gnodes := ns\<rparr>) n = degree g n"
  by (simp add: degree_def)

lemma remove_isolated_twice:
  assumes "G < length h"
  defines "g1 \<equiv> (h ! G)\<lparr>gnodes := filter (\<lambda>nd. degree (h ! G) (fst nd) \<noteq> 0) (gnodes (h ! G))\<rparr>"
  shows "remove_isolated (h @ [g1]) (length h) = (h @ [g1, g1], Inr (Suc (length h)))"
proof -
  have "filter (\<lambda>nd. degree g1 (fst nd) \<noteq> 0) (gnodes g1) = gnodes g1"
    by (simp add: g1_def degree_gnodes_update)
  then have "g1\<lparr>gnodes := filter (\<lambda>nd. degree g1 (fst nd) \<noteq> 0) (gnodes g1)\<rparr> = g1" by simp
  moreover have "remove_isolated (h @ [g1]) (length h) =
    ((h @ [g1]) @ [((h @ [g1]) ! length h)\<lparr>gnodes := filter (\<lambda>nd. degree ((h @ [g1]) ! length h) (fst nd) \<noteq> 0) (gnodes ((h @ [g1]) ! length h))\<rparr>],
     Inr (length (h @ [g1])))"
    by (rule remove_isolated_value) simp
  ultimately show ?thesis by simp
qed

lemma extract_subgraph_found:
  assumes "wf_graph (h ! G)" "find_root (gnodes (h ! G)) d = Some r" "r \<in> fst ` set (gnodes (h ! G))"
  shows "extract_subgraph h G d k =
     (h @ [subgraph (h ! G) ((spec_round (h ! G) ^^ nat k) {r})], Inr (length h))"
proof -
  from assms(3) have "{r} \<subseteq> fst ` set (gnodes (h ! G))" by simp
  with assms(1) have "hops (h ! G) (nat k) {r} = Inr ((spec_round (h ! G) ^^ nat k) {r})"
    by (rule hops_spec)
  with assms(2) show ?thesis by (simp add: extract_subgraph_def subgraph_copy_def)
qed

lemma funpow_spec_round_nodes:
  "wf_graph g \<Longrightarrow> S \<subseteq> fst ` set (gnodes g) \<Longrightarrow> (spec_round g ^^ k) S \<subseteq> fst ` set (gnodes g)"
  by (induction k) (auto dest: spec_round_nodes)

lemma subgraph_node_ids:
  "S \<subseteq> fst ` set (gnodes g) \<Longrightarrow> fst ` set (gnodes (subgraph g S)) = S"
  by (force simp: subgraph_def)


lemma wf_scenario: "wf_graph scenario_graph"
  by (simp add: wf_graph_def scenario_graph_def)

lemma lit_simps: "lit [] = []" "lit (c # cs) = of_char c # lit cs"
  by (simp_all add: lit_def)


lemma hops_scenario:
  "hop scenario_graph {2} = Inr {1, 2, 3}"
  by (auto simp add: scenario_graph_def hop_def has_node_def successors_def predecessors_def)

lemma extract_subgraph_scenario:
  "extract_subgraph [scenario_graph] 0 (lit ''b.com'') 1 = ([scenario_graph, scenario_graph], Inr 1)"
proof -
  have "find_root (gnodes scenario_graph) (lit ''b.com'') = Some 2"
    by (simp add: scenario_graph_def loaded_node_def lit_simps)
  moreover have "subgraph scenario_graph {1, 2, 3} = scenario_graph"
    by (simp add: subgraph_def scenario_graph_def)
  ultimately show ?thesis
    by (simp add: extract_subgraph_def hops_scenario subgraph_copy_def)
qed

lemma filter_by_weight_scenario:
  "filter_by_weight [scenario_graph] 0 2 =
     ([scenario_graph, scenario_graph\<lparr>gedges := [((2, 3), \<lparr>weight = Some 5\<rparr>)]\<rparr>], Inr 1)"
  by (simp add: filter_by_weight_def scenario_graph_def copy_def remove_edges_from_def get_weight_def)

lemma returns_new_graph_alloc:
  "G < length h \<Longrightarrow> returns_new_graph h (h @ [g], Inr (length h)) \<and> (h @ [g]) ! G = h ! G"
  by (simp add: returns_new_graph_def nth_append)

lemma returns_new_graph_raise: "returns_new_graph h (h, Inl e)"
  by (simp add: returns_new_graph_def)

lemma extract_subgraph_cases:
  "(\<exists>e. extract_subgraph h G d k = (h, Inl e)) \<or>
   (\<exists>g. extract_subgraph h G d k = (h @ [g], Inr (length h)))"
  by (simp add: extract_subgraph_def subgraph_copy_def split: option.splits sum.splits)

lemma main_rejected:
  assumes "validate_arguments path_exists path_is_file a = Inl e"
  shows "main path_exists path_is_file load_graph a = ([], [], Inl e)"
  using assms by (simp add: main_def)

lemma main_scenario:
  "main any_path any_path scenario_db (scenario_args (Some 2)) =
     ([LoadGraph (lit ''crawler.db''), FilterByWeight 2],
      [scenario_graph, scenario_graph\<lparr>gedges := [((2, 3), \<lparr>weight = Some 5\<rparr>)]\<rparr>], Inr 1)"
  by (simp add: main_def validate_arguments_def any_path_def scenario_args_def scenario_db_def
      then_filter_def filter_by_weight_scenario)
     (simp add: number_of_nodes_def scenario_graph_def)

section \<open>Lemmas about the normalization of positions\<close>

lemma py_min_Min: "xs \<noteq> [] \<Longrightarrow> py_min xs = Min (set xs)"
  by (cases xs) (simp_all add: Min.set_eq_fold [symmetric])

lemma py_max_Max: "xs \<noteq> [] \<Longrightarrow> py_max xs = Max (set xs)"
  by (cases xs) (simp_all add: Max.set_eq_fold [symmetric])

lemma py_min_le: "x \<in> set xs \<Longrightarrow> py_min xs \<le> x"
  by (cases "xs = []") (simp_all add: py_min_Min)

lemma py_max_ge: "x \<in> set xs \<Longrightarrow> x \<le> py_max xs"
  by (cases "xs = []") (simp_all add: py_max_Max)

lemma py_min_in: "xs \<noteq> [] \<Longrightarrow> py_min xs \<in> set xs"
  by (simp add: py_min_Min)

lemma py_max_in: "xs \<noteq> [] \<Longrightarrow> py_max xs \<in> set xs"
  by (simp add: py_max_Max)

text \<open>The fraction of the range at which a coordinate lies.\<close>

lemma fraction_bounds:
  fixes x lo hi :: real
  assumes "lo \<le> x" "x \<le> hi"
  shows "0 \<le> (x - lo) / (if hi \<noteq> lo then hi - lo else 1)"
    and "(x - lo) / (if hi \<noteq> lo then hi - lo else 1) \<le> 1"
  using assms by (auto simp: divide_le_eq_1)

lemma scaled_bounds:
  fixes t S :: real
  assumes "0 \<le> t" "t \<le> 1" "0 \<le> S"
  shows "0 \<le> t * S" and "t * S \<le> S"
proof -
  show "0 \<le> t * S" using assms by simp
  have "t * S \<le> 1 * S" using assms by (intro mult_right_mono) simp_all
  then show "t * S \<le> S" by simp
qed

lemma uniform_bounds:
  assumes "0 \<le> j" "0 \<le> u" "u \<le> 1"
  shows "- j \<le> uniform (- j) j u" and "uniform (- j) j u \<le> j"
proof -
  have "0 \<le> j * u" using assms by simp
  moreover have "j * u \<le> j" using assms by (simp add: mult_left_le)
  ultimately show "- j \<le> uniform (- j) j u" and "uniform (- j) j u \<le> j"
    by (simp_all add: uniform_def algebra_simps)
qed

lemma normalize_loop_keys:
  "map fst (normalize_loop pos min_x range_x min_y range_y scale jitter draws i) = map fst pos"
  by (induction pos min_x range_x min_y range_y scale jitter draws i rule: normalize_loop.induct)
     (simp_all add: Let_def)

lemma normalize_loop_elem:
  "(n, x', y') \<in> set (normalize_loop pos min_x range_x min_y range_y scale jitter draws i) \<Longrightarrow>
   \<exists>x y k l. (n, x, y) \<in> set pos \<and>
      x' = (x - min_x) / range_x * scale + (if jitter > 0 then uniform (- jitter) jitter (draws k) else 0) \<and>
      y' = (y - min_y) / range_y * scale + (if jitter > 0 then uniform (- jitter) jitter (draws l) else 0)"
proof (induction pos min_x range_x min_y range_y scale jitter draws i rule: normalize_loop.induct)
  case (1 min_x range_x min_y range_y scale jitter draws i)
  then show ?case by simp
next
  case (2 node_id x y rest min_x range_x min_y range_y scale jitter draws i)
  show ?case
  proof (cases "jitter > 0")
    case True
    with "2.prems" consider
      "n = node_id \<and> x' = (x - min_x) / range_x * scale + uniform (- jitter) jitter (draws i) \<and>
       y' = (y - min_y) / range_y * scale + uniform (- jitter) jitter (draws (i + 1))"
      | "(n, x', y') \<in> set (normalize_loop rest min_x range_x min_y range_y scale jitter draws (i + 2))"
      by (auto simp: Let_def)
    then show ?thesis
    proof cases
      case 1
      with True show ?thesis by fastforce
    next
      case 2
      from "2.IH"(1) [OF refl refl True 2] show ?thesis by fastforce
    qed
  next
    case False
    with "2.prems" consider
      "n = node_id \<and> x' = (x - min_x) / range_x * scale \<and> y' = (y - min_y) / range_y * scale"
      | "(n, x', y') \<in> set (normalize_loop rest min_x range_x min_y range_y scale jitter draws i)"
      by (auto simp: Let_def)
    then show ?thesis
    proof cases
      case 1
      with False show ?thesis by fastforce
    next
      case 2
      from "2.IH"(2) [OF refl refl False 2] show ?thesis by fastforce
    qed
  qed
qed

lemma normalize_loop_no_jitter:
  "\<not> jitter > 0 \<Longrightarrow>
   normalize_loop pos min_x range_x min_y range_y scale jitter draws i =
     map (\<lambda>p. (fst p, (fst (snd p) - min_x) / range_x * scale, (snd (snd p) - min_y) / range_y * scale)) pos"
  by (induction pos min_x range_x min_y range_y scale jitter draws i rule: normalize_loop.induct)
     (simp_all add: Let_def)


lemma normalize_positions_unfold:
  "pos \<noteq> [] \<Longrightarrow>
   normalize_positions pos (Some S) (Some j) draws =
     normalize_loop pos
       (py_min (map (\<lambda>p. fst (snd p)) pos))
       (if py_max (map (\<lambda>p. fst (snd p)) pos) \<noteq> py_min (map (\<lambda>p. fst (snd p)) pos)
        then py_max (map (\<lambda>p. fst (snd p)) pos) - py_min (map (\<lambda>p. fst (snd p)) pos) else 1)
       (py_min (map (\<lambda>p. snd (snd p)) pos))
       (if py_max (map (\<lambda>p. snd (snd p)) pos) \<noteq> py_min (map (\<lambda>p. snd (snd p)) pos)
        then py_max (map (\<lambda>p. snd (snd p)) pos) - py_min (map (\<lambda>p. snd (snd p)) pos) else 1)
       S j draws 0"
  by (simp add: normalize_positions_def Let_def)

lemma jittered_bounds:
  fixes c lo hi S j u :: real
  assumes "lo \<le> c" "c \<le> hi" "0 \<le> S" "0 \<le> j" "0 \<le> u" "u \<le> 1"
  shows "- j \<le> (c - lo) / (if hi \<noteq> lo then hi - lo else 1) * S +
            (if j > 0 then uniform (- j) j u else 0)"
    and "(c - lo) / (if hi \<noteq> lo then hi - lo else 1) * S +
            (if j > 0 then uniform (- j) j u else 0) \<le> S + j"
proof -
  let ?t = "(c - lo) / (if hi \<noteq> lo then hi - lo else 1)"
  let ?r = "if j > 0 then uniform (- j) j u else 0"
  have t: "0 \<le> ?t" "?t \<le> 1" using assms(1,2) by (rule fraction_bounds)+
  have s: "0 \<le> ?t * S" "?t * S \<le> S" using t assms(3) by (rule scaled_bounds)+
  have r: "- j \<le> ?r" "?r \<le> j"
    using uniform_bounds [OF assms(4,5,6)] assms(4) by (simp_all split: if_splits)
  from s r show "- j \<le> ?t * S + ?r" and "?t * S + ?r \<le> S + j" by linarith+
qed

lemma normalize_positions_bounds:
  assumes S: "0 \<le> S" and j: "0 \<le> j" and d: "\<forall>i. 0 \<le> draws i \<and> draws i \<le> 1"
    and el: "p \<in> set (normalize_positions pos (Some S) (Some j) draws)"
  shows "- j \<le> fst (snd p) \<and> fst (snd p) \<le> S + j \<and> - j \<le> snd (snd p) \<and> snd (snd p) \<le> S + j"
proof -
  from el have ne: "pos \<noteq> []" by (auto simp: normalize_positions_def)
  let ?xs = "map (\<lambda>p. fst (snd p)) pos" and ?ys = "map (\<lambda>p. snd (snd p)) pos"
  obtain n x' y' where p: "p = (n, x', y')" by (cases p) auto
  from el [unfolded normalize_positions_unfold [OF ne] p]
  obtain x y k l where q: "(n, x, y) \<in> set pos"
    and x': "x' = (x - py_min ?xs) / (if py_max ?xs \<noteq> py_min ?xs then py_max ?xs - py_min ?xs else 1) * S
              + (if j > 0 then uniform (- j) j (draws k) else 0)"
    and y': "y' = (y - py_min ?ys) / (if py_max ?ys \<noteq> py_min ?ys then py_max ?ys - py_min ?ys else 1) * S
              + (if j > 0 then uniform (- j) j (draws l) else 0)"
    by (blast dest: normalize_loop_elem)
  from q have "x \<in> set ?xs" and "y \<in> set ?ys" by force+
  then have bx: "py_min ?xs \<le> x" "x \<le> py_max ?xs" and by': "py_min ?ys \<le> y" "y \<le> py_max ?ys"
    by (simp_all only: py_min_le py_max_ge)
  from d have dk: "0 \<le> draws k" "draws k \<le> 1" and dl: "0 \<le> draws l" "draws l \<le> 1" by simp_all
  from jittered_bounds [OF bx S j dk] jittered_bounds [OF by' S j dl]
  show ?thesis unfolding p x' y' by simp
qed

lemma normalize_positions_lower:
  assumes ne: "pos \<noteq> []" and nj: "\<not> j > 0"
  shows "\<exists>p\<in>set (normalize_positions pos (Some S) (Some j) draws). fst (snd p) = 0"
    and "\<exists>p\<in>set (normalize_positions pos (Some S) (Some j) draws). snd (snd p) = 0"
proof -
  let ?xs = "map (\<lambda>p. fst (snd p)) pos" and ?ys = "map (\<lambda>p. snd (snd p)) pos"
  from ne have "py_min ?xs \<in> set ?xs" and "py_min ?ys \<in> set ?ys"
    by (intro py_min_in, simp)+
  then obtain a b where a: "a \<in> set pos" "fst (snd a) = py_min ?xs"
    and b: "b \<in> set pos" "snd (snd b) = py_min ?ys" by auto
  from a show "\<exists>p\<in>set (normalize_positions pos (Some S) (Some j) draws). fst (snd p) = 0"
    unfolding normalize_positions_unfold [OF ne] normalize_loop_no_jitter [OF nj]
    by (auto intro!: bexI [of _ a])
  from b show "\<exists>p\<in>set (normalize_positions pos (Some S) (Some j) draws). snd (snd p) = 0"
    unfolding normalize_positions_unfold [OF ne] normalize_loop_no_jitter [OF nj]
    by (auto intro!: bexI [of _ b])
qed

lemma normalize_positions_upper:
  assumes ne: "pos \<noteq> []" and nj: "\<not> j > 0"
  shows "py_max (map (\<lambda>p. fst (snd p)) pos) \<noteq> py_min (map (\<lambda>p. fst (snd p)) pos) \<Longrightarrow>
           \<exists>p\<in>set (normalize_positions pos (Some S) (Some j) draws). fst (snd p) = S"
    and "py_max (map (\<lambda>p. snd (snd p)) pos) \<noteq> py_min (map (\<lambda>p. snd (snd p)) pos) \<Longrightarrow>
           \<exists>p\<in>set (normalize_positions pos (Some S) (Some j) draws). snd (snd p) = S"
proof -
  let ?xs = "map (\<lambda>p. fst (snd p)) pos" and ?ys = "map (\<lambda>p. snd (snd p)) pos"
  from ne have "py_max ?xs \<in> set ?xs" and "py_max ?ys \<in> set ?ys"
    by (intro py_max_in, simp)+
  then obtain a b where a: "a \<in> set pos" "fst (snd a) = py_max ?xs"
    and b: "b \<in> set pos" "snd (snd b) = py_max ?ys" by auto
  {
    assume "py_max ?xs \<noteq> py_min ?xs"
    with a show "\<exists>p\<in>set (normalize_positions pos (Some S) (Some j) draws). fst (snd p) = S"
      unfolding normalize_positions_unfold [OF ne] normalize_loop_no_jitter [OF nj]
      by (auto intro!: bexI [of _ a])
  }
  {
    assume "py_max ?ys \<noteq> py_min ?ys"
    with b show "\<exists>p\<in>set (normalize_positions pos (Some S) (Some j) draws). snd (snd p) = S"
      unfolding normalize_positions_unfold [OF ne] normalize_loop_no_jitter [OF nj]
      by (auto intro!: bexI [of _ b])
  }
qed

lemma normalize_positions_degenerate:
  assumes ne: "pos \<noteq> []" and nj: "\<not> j > 0"
  shows "py_max (map (\<lambda>p. fst (snd p)) pos) = py_min (map (\<lambda>p. fst (snd p)) pos) \<Longrightarrow>
           p \<in> set (normalize_positions pos (Some S) (Some j) draws) \<Longrightarrow> fst (snd p) = 0"
    and "py_max (map (\<lambda>p. snd (snd p)) pos) = py_min (map (\<lambda>p. snd (snd p)) pos) \<Longrightarrow>
           p \<in> set (normalize_positions pos (Some S) (Some j) draws) \<Longrightarrow> snd (snd p) = 0"
proof -
  let ?xs = "map (\<lambda>p. fst (snd p)) pos" and ?ys = "map (\<lambda>p. snd (snd p)) pos"
  {
    assume eq: "py_max ?xs = py_min ?xs" and el: "p \<in> set (normalize_positions pos (Some S) (Some j) draws)"
    from el obtain q where q: "q \<in> set pos" and px: "fst (snd p) = (fst (snd q) - py_min ?xs) / 1 * S"
      unfolding normalize_positions_unfold [OF ne] normalize_loop_no_jitter [OF nj]
      using eq by auto
    from q have "fst (snd q) \<in> set ?xs" by simp
    then have "py_min ?xs \<le> fst (snd q)" "fst (snd q) \<le> py_max ?xs"
      by (simp_all only: py_min_le py_max_ge)
    with eq have "fst (snd q) = py_min ?xs" by linarith
    with px show "fst (snd p) = 0" by simp
  }
  {
    assume eq: "py_max ?ys = py_min ?ys" and el: "p \<in> set (normalize_positions pos (Some S) (Some j) draws)"
    from el obtain q where q: "q \<in> set pos" and py: "snd (snd p) = (snd (snd q) - py_min ?ys) / 1 * S"
      unfolding normalize_positions_unfold [OF ne] normalize_loop_no_jitter [OF nj]
      using eq by auto
    from q have "snd (snd q) \<in> set ?ys" by simp
    then have "py_min ?ys \<le> snd (snd q)" "snd (snd q) \<le> py_max ?ys"
      by (simp_all only: py_min_le py_max_ge)
    with eq have "snd (snd q) = py_min ?ys" by linarith
    with py show "snd (snd p) = 0" by simp
  }
qed

lemma same_coordinate:
  assumes "pos \<noteq> []" and "\<forall>a\<in>set pos. \<forall>b\<in>set pos. f a = f b"
  shows "py_max (map f pos) = py_min (map f pos)"
proof -
  from assms(1) have ne: "map f pos \<noteq> []" by simp
  from py_max_in [OF ne] obtain a where a: "a \<in> set pos" "py_max (map f pos) = f a" by auto
  from py_min_in [OF ne] obtain b where b: "b \<in> set pos" "py_min (map f pos) = f b" by auto
  from assms(2) a(1) b(1) have "f a = f b" by blast
  with a(2) b(2) show ?thesis by simp
qed

lemma spread_coordinate:
  assumes "a \<in> set pos" and "b \<in> set pos" and "f a \<noteq> f b"
  shows "py_max (map f pos) \<noteq> py_min (map f pos)"
proof -
  from assms(1,2) have "f a \<in> set (map f pos)" "f b \<in> set (map f pos)" by simp_all
  then have "py_min (map f pos) \<le> f a" "f a \<le> py_max (map f pos)"
    "py_min (map f pos) \<le> f b" "f b \<le> py_max (map f pos)"
    by (simp_all only: py_min_le py_max_ge)
  with assms(3) show ?thesis by linarith
qed

lemma half_draws_unit: "\<forall>i. 0 \<le> half_draws i \<and> half_draws i \<le> 1"
  by (simp add: half_draws_def)

lemma normalize_positions_defaults:
  "normalize_positions pos None jitter_arg draws = normalize_positions pos (Some 10) jitter_arg draws"
  "normalize_positions pos scale_arg None draws = normalize_positions pos scale_arg (Some 0) draws"
  by (simp_all add: normalize_positions_def)

lemma half_max_float_ge: "1000 \<le> max_float / 2"
proof -
  have "(2::real) ^ 10 \<le> 2 ^ 1022" by (rule power_increasing) simp_all
  then have a: "(1000::real) \<le> 2 ^ 1022" by simp
  have "(1::real) \<le> 2 - 1 / 2 ^ 52" by (simp add: field_simps)
  then have "1 * (2::real) ^ 1022 \<le> (2 - 1 / 2 ^ 52) * 2 ^ 1022"
    by (rule mult_right_mono) simp
  moreover have "max_float / 2 = (2 - 1 / 2 ^ 52) * 2 ^ 1022"
    by (simp add: max_float_def)
  ultimately show ?thesis using a by linarith
qed

lemma no_overflow_axis:
  assumes ne: "pos \<noteq> []" and b: "\<forall>p\<in>set pos. \<bar>f p\<bar> \<le> M / 2"
  shows "py_max (map f pos) - py_min (map f pos) \<le> M"
    and "p \<in> set pos \<Longrightarrow> \<bar>f p - py_min (map f pos)\<bar> \<le> M"
proof -
  from ne have n: "map f pos \<noteq> []" by simp
  from py_max_in [OF n] obtain a where a: "a \<in> set pos" "py_max (map f pos) = f a" by auto
  from py_min_in [OF n] obtain c where c: "c \<in> set pos" "py_min (map f pos) = f c" by auto
  from b a(1) c(1) have ba: "\<bar>f a\<bar> \<le> M / 2" and bc: "\<bar>f c\<bar> \<le> M / 2" by blast+
  from ba bc show "py_max (map f pos) - py_min (map f pos) \<le> M"
    unfolding a(2) c(2) by linarith
  assume "p \<in> set pos"
  with b have "\<bar>f p\<bar> \<le> M / 2" by blast
  with bc show "\<bar>f p - py_min (map f pos)\<bar> \<le> M" unfolding c(2) by linarith
qed

section \<open>Lemmas about the colour gradient\<close>












lemma gradient_stops:
  "gradient 0 = (0, 255, 0)" "gradient (33 / 100) = (255, 255, 0)"
  "gradient (66 / 100) = (255, 127, 0)" "gradient 1 = (255, 0, 0)"
  by (simp_all add: gradient_def py_int_def)









lemma log_2_64: "log 2 64 = 6"
proof -
  have "log 2 (2 ^ 6) = real 6 * log 2 2" by (rule log_nat_power) simp
  then show ?thesis by simp
qed

lemma color_examples:
  "calculate_node_color 0 = Inr (lit ''#00ff00'')"
  "calculate_node_color 63 = Inr (lit ''#ff0000'')"
  by (simp_all add: calculate_node_color_def gradient_stops log_2_64 format_02x_def
      hex_nat.simps hex_digit_def lit_def)

section \<open>Lemmas about the sanitizer\<close>

lemma lit_not_Nil: "lit (c # cs) \<noteq> []"
  by (simp add: lit_def)

lemma sanitize_nonempty: "sanitize_domain_name uni hash dmn \<noteq> []"
proof (cases dmn)
  case None
  then show ?thesis by (simp add: sanitize_domain_name_def lit_def)
next
  case (Some d)
  show ?thesis
  proof (cases "d = []")
    case True
    with Some show ?thesis by (simp add: sanitize_domain_name_def lit_def)
  next
    case False
    with Some show ?thesis
      by (simp add: sanitize_domain_name_def Let_def lit_def)
  qed
qed

lemma sanitize_example_comma:
  "sanitize_domain_name uni hash (Some (lit ''example,com'')) = lit ''example.com''"
  by (simp add: sanitize_domain_name_def Let_def lit_def strip_def isspace_def isalnum_def
      ascii_alnum_def)

lemma sanitize_example_bang:
  "sanitize_domain_name uni hash (Some (lit ''!!!'')) =
     lit ''invalid_domain_'' @ str_int (hash (lit ''!!!'') mod 10000)"
  by (simp add: sanitize_domain_name_def Let_def lit_def strip_def isspace_def ascii_alnum_def)

lemma sanitize_missing:
  "sanitize_domain_name uni hash None = lit ''unknown''"
  "sanitize_domain_name uni hash (Some []) = lit ''unknown''"
  by (simp_all add: sanitize_domain_name_def)

lemma unknown_not_placeholder:
  "lit ''unknown'' \<noteq> lit ''invalid_domain_'' @ s"
  by (simp add: lit_def)

lemma str_nat_digits: "str_nat n \<noteq> [] \<and> list_all (\<lambda>c. 48 \<le> c \<and> c \<le> 57) (str_nat n)"
proof (induction n rule: str_nat.induct)
  case (1 n)
  show ?case
  proof (cases "n < 10")
    case True
    then show ?thesis by (simp add: str_nat.simps [of n])
  next
    case False
    have "n mod 10 < 10" by simp
    then have "48 + n mod 10 \<le> 57" by linarith
    with False "1.IH" show ?thesis by (simp add: str_nat.simps [of n])
  qed
qed

lemma str_int_shape:
  "str_int i \<noteq> [] \<and> str_int i \<noteq> [45] \<and> str_int i \<noteq> [46] \<and>
   list_all (\<lambda>c. (48 \<le> c \<and> c \<le> 57) \<or> c = 45) (str_int i)"
proof -
  have d: "\<And>n. str_nat n \<noteq> []" "\<And>n. list_all (\<lambda>c. 48 \<le> c \<and> c \<le> 57) (str_nat n)"
    using str_nat_digits by blast+
  have w: "\<And>n. list_all (\<lambda>c. (48 \<le> c \<and> c \<le> 57) \<or> c = 45) (str_nat n)"
    using d(2) by (auto simp: list_all_iff)
  have ne: "\<And>n. str_nat n \<noteq> [45] \<and> str_nat n \<noteq> [46]"
  proof -
    fix n
    from d(2) [of n] show "str_nat n \<noteq> [45] \<and> str_nat n \<noteq> [46]"
      by (auto simp: list_all_iff)
  qed
  show ?thesis using d(1) w ne by (simp add: str_int_def)
qed

lemma strip_id:
  assumes "list_all (\<lambda>c. \<not> isspace c) s"
  shows "strip s = s"
proof -
  have a: "\<And>t. list_all (\<lambda>c. \<not> isspace c) t \<Longrightarrow> dropWhile isspace t = t"
    by (case_tac t) simp_all
  from assms have "list_all (\<lambda>c. \<not> isspace c) (rev s)" by (simp add: list_all_iff)
  with a [OF assms] a [of "rev s"] show ?thesis by (simp add: strip_def)
qed

lemma sanitize_clean:
  assumes "s \<noteq> []" and "s \<noteq> [45]" and "s \<noteq> [46]"
    and "list_all (\<lambda>c. (48 \<le> c \<and> c \<le> 57) \<or> c = 45) s"
  shows "sanitize_domain_name uni hash (Some s) = s"
proof -
  from assms(4) have sp: "list_all (\<lambda>c. \<not> isspace c) s"
    by (auto simp: list_all_iff isspace_def)
  from assms(4) have nc: "44 \<notin> set s" by (auto simp: list_all_iff)
  from assms(4) have keep: "filter (\<lambda>c. ascii_alnum c \<or> c = 46 \<or> c = 45) s = s"
    by (auto simp: list_all_iff ascii_alnum_def filter_id_conv)
  from assms(1,2,3) nc keep show ?thesis
    by (simp add: sanitize_domain_name_def Let_def strip_id [OF sp])
qed

lemma node_label_without_domain:
  assumes "domain data = None"
  shows "node_label uni hash node_id data = str_int node_id"
  using assms str_int_shape [of node_id]
  by (simp add: node_label_def sanitize_clean)

lemma str_int_7: "str_int 7 = lit ''7''"
  by (simp add: str_int_def str_nat.simps lit_def)

section \<open>The claims about the filters\<close>

text \<open>
  C1. For every graph, root domain \<open>d\<close> and positive hop depth \<open>k\<close>: when no node's domain
  equals \<open>d\<close> the extraction fails with the "not found" \<open>ValueError\<close> and allocates nothing;
  when the node at position \<open>i\<close> is the first one, in iteration order, whose domain equals
  \<open>d\<close>, the extraction returns a new graph, the subgraph induced on the set reached from
  that node by \<open>k\<close> rounds, each adding all successors and predecessors of the nodes
  included so far: its nodes are exactly that set and its edges are all the edges of the
  graph between two nodes of the set. On the graph of the scenario, rooted at
  \<open>b.com\<close> with depth 1, the result has the nodes 1, 2, 3 and both edges.
\<close>

theorem extract_subgraph_correct:
  assumes "G < length h" and "wf_graph (h ! G)" and "0 < k"
  shows
   "((\<forall>nd\<in>set (gnodes (h ! G)). domain (snd nd) \<noteq> Some d) \<longrightarrow>
       extract_subgraph h G d k = (h, Inl (ValueError (not_found_message d)))) \<and>
    (i < length (gnodes (h ! G)) \<and>
       domain (snd (gnodes (h ! G) ! i)) = Some d \<and>
       (\<forall>j<i. domain (snd (gnodes (h ! G) ! j)) \<noteq> Some d) \<longrightarrow>
       (let S = (spec_round (h ! G) ^^ nat k) {fst (gnodes (h ! G) ! i)};
            g' = subgraph (h ! G) S
        in extract_subgraph h G d k = (h @ [g'], Inr (length h)) \<and>
           fst ` set (gnodes g') = S \<and>
           set (gnodes g') = {nd \<in> set (gnodes (h ! G)). fst nd \<in> S} \<and>
           set (gedges g') =
             {e \<in> set (gedges (h ! G)). fst (fst e) \<in> S \<and> snd (fst e) \<in> S})) \<and>
    (case extract_subgraph [scenario_graph] 0 (lit ''b.com'') 1 of
       (h', Inr r) \<Rightarrow>
         fst ` set (gnodes (h' ! r)) = {1, 2, 3} \<and>
         fst ` set (gedges (h' ! r)) = {(1, 2), (2, 3)}
     | (h', Inl e) \<Rightarrow> False)"
proof (intro conjI impI)
  assume "\<forall>nd\<in>set (gnodes (h ! G)). domain (snd nd) \<noteq> Some d"
  then have "find_root (gnodes (h ! G)) d = None" by (simp add: find_root_None)
  then show "extract_subgraph h G d k = (h, Inl (ValueError (not_found_message d)))"
    by (simp add: extract_subgraph_def)
next
  assume hyp: "i < length (gnodes (h ! G)) \<and> domain (snd (gnodes (h ! G) ! i)) = Some d \<and>
       (\<forall>j<i. domain (snd (gnodes (h ! G) ! j)) \<noteq> Some d)"
  then have i: "i < length (gnodes (h ! G))"
    and first: "domain (snd (gnodes (h ! G) ! i)) = Some d \<and>
       (\<forall>j<i. domain (snd (gnodes (h ! G) ! j)) \<noteq> Some d)" by simp_all
  define r where "r = fst (gnodes (h ! G) ! i)"
  define S where "S = (spec_round (h ! G) ^^ nat k) {r}"
  from i first have root: "find_root (gnodes (h ! G)) d = Some r"
    unfolding r_def by (intro find_root_first) simp_all
  from i have r_in: "r \<in> fst ` set (gnodes (h ! G))"
    unfolding r_def by (metis image_eqI nth_mem)
  then have "{r} \<subseteq> fst ` set (gnodes (h ! G))" by simp
  with assms(2) have S_sub: "S \<subseteq> fst ` set (gnodes (h ! G))"
    unfolding S_def by (rule funpow_spec_round_nodes)
  have run: "extract_subgraph h G d k = (h @ [subgraph (h ! G) S], Inr (length h))"
    unfolding S_def using assms(2) root r_in by (rule extract_subgraph_found)
  have ids: "fst ` set (gnodes (subgraph (h ! G) S)) = S"
    using S_sub by (rule subgraph_node_ids)
  have nds: "set (gnodes (subgraph (h ! G) S)) = {nd \<in> set (gnodes (h ! G)). fst nd \<in> S}"
    by (simp add: subgraph_def)
  have eds: "set (gedges (subgraph (h ! G) S)) =
      {e \<in> set (gedges (h ! G)). fst (fst e) \<in> S \<and> snd (fst e) \<in> S}"
    by (simp add: subgraph_def)
  from run ids nds eds
  show "let S = (spec_round (h ! G) ^^ nat k) {fst (gnodes (h ! G) ! i)};
            g' = subgraph (h ! G) S
        in extract_subgraph h G d k = (h @ [g'], Inr (length h)) \<and>
           fst ` set (gnodes g') = S \<and>
           set (gnodes g') = {nd \<in> set (gnodes (h ! G)). fst nd \<in> S} \<and>
           set (gedges g') =
             {e \<in> set (gedges (h ! G)). fst (fst e) \<in> S \<and> snd (fst e) \<in> S}"
    unfolding Let_def S_def r_def by blast
next
  show "case extract_subgraph [scenario_graph] 0 (lit ''b.com'') 1 of
       (h', Inr r) \<Rightarrow>
         fst ` set (gnodes (h' ! r)) = {1, 2, 3} \<and>
         fst ` set (gedges (h' ! r)) = {(1, 2), (2, 3)}
     | (h', Inl e) \<Rightarrow> False"
    by (simp add: extract_subgraph_scenario) (simp add: scenario_graph_def)
qed

theorem extract_subgraph_correct_witness:
  "(0::nat) < length [scenario_graph] \<and> wf_graph ([scenario_graph] ! 0) \<and> (0::int) < 1 \<and>
   (1::nat) < length (gnodes scenario_graph) \<and>
   domain (snd (gnodes scenario_graph ! 1)) = Some (lit ''b.com'') \<and>
   domain (snd (gnodes scenario_graph ! 0)) \<noteq> Some (lit ''b.com'') \<and>
   extract_subgraph [scenario_graph] 0 (lit ''b.com'') 1 =
     ([scenario_graph, subgraph scenario_graph (spec_round scenario_graph {2})], Inr 1) \<and>
   list_all (\<lambda>nd. domain (snd nd) \<noteq> Some (lit ''d.com'')) (gnodes scenario_graph) \<and>
   extract_subgraph [scenario_graph] 0 (lit ''d.com'') 1 =
     ([scenario_graph], Inl (ValueError (not_found_message (lit ''d.com''))))"
proof -
  have h1: "(0::nat) < length [scenario_graph]" by simp
  have h2: "wf_graph ([scenario_graph] ! 0)" by (simp add: wf_scenario)
  have h3: "(0::int) < 1" by simp
  have h4: "(1::nat) < length (gnodes scenario_graph)" by (simp add: scenario_graph_def)
  have h5: "domain (snd (gnodes scenario_graph ! 1)) = Some (lit ''b.com'')"
    by (simp add: scenario_graph_def loaded_node_def)
  have h6: "domain (snd (gnodes scenario_graph ! 0)) \<noteq> Some (lit ''b.com'')"
    by (simp add: scenario_graph_def loaded_node_def lit_simps)
  have h7: "\<forall>nd\<in>set (gnodes scenario_graph). domain (snd nd) \<noteq> Some (lit ''d.com'')"
    by (simp add: scenario_graph_def loaded_node_def lit_simps)
  have h8: "fst (gnodes scenario_graph ! 1) = 2" by (simp add: scenario_graph_def)
  have first: "1 < length (gnodes ([scenario_graph] ! 0)) \<and>
       domain (snd (gnodes ([scenario_graph] ! 0) ! 1)) = Some (lit ''b.com'') \<and>
       (\<forall>j<1. domain (snd (gnodes ([scenario_graph] ! 0) ! j)) \<noteq> Some (lit ''b.com''))"
    using h4 h5 h6 by simp
  have none: "\<forall>nd\<in>set (gnodes ([scenario_graph] ! 0)). domain (snd nd) \<noteq> Some (lit ''d.com'')"
    using h7 by simp
  from h7 have h7': "list_all (\<lambda>nd. domain (snd nd) \<noteq> Some (lit ''d.com'')) (gnodes scenario_graph)"
    by (simp add: list_all_iff)
  note found = extract_subgraph_correct [OF h1 h2 h3, of "lit ''b.com''" 1,
      THEN conjunct2, THEN conjunct1, THEN mp, OF first]
  note missing = extract_subgraph_correct [OF h1 h2 h3, of "lit ''d.com''" 1,
      THEN conjunct1, THEN mp, OF none]
  from found have run: "extract_subgraph [scenario_graph] 0 (lit ''b.com'') 1 =
     ([scenario_graph, subgraph scenario_graph (spec_round scenario_graph {2})], Inr 1)"
    using h8 by (simp add: Let_def)
  from h1 h2 h3 h4 h5 h6 h7' run missing show ?thesis by blast
qed

text \<open>
  C2. For every graph and threshold \<open>w\<close>, the weight filter returns a new graph whose edges
  are exactly the edges of the input whose weight (1 when the attribute is absent) is at
  least \<open>w\<close>, so that every edge of weight below \<open>w\<close> is gone, and whose nodes are those of
  the input, isolated or not. On the graph of the scenario with threshold 2 only the edge
  (2, 3) is left, and node 1 is still a node.
\<close>

theorem filter_by_weight_correct:
  assumes "G < length h" and "wf_graph (h ! G)"
  shows
   "(let g' = (h ! G)\<lparr>gedges := filter (\<lambda>e. w \<le> get_weight (snd e) 1) (gedges (h ! G))\<rparr>
     in filter_by_weight h G w = (h @ [g'], Inr (length h)) \<and>
        set (gedges g') = {e \<in> set (gedges (h ! G)). w \<le> get_weight (snd e) 1} \<and>
        (\<forall>e\<in>set (gedges (h ! G)). get_weight (snd e) 1 < w \<longrightarrow> e \<notin> set (gedges g')) \<and>
        gnodes g' = gnodes (h ! G)) \<and>
    (case filter_by_weight [scenario_graph] 0 2 of
       (h', Inr r) \<Rightarrow>
         gedges (h' ! r) = [((2, 3), \<lparr>weight = Some 5\<rparr>)] \<and>
         gnodes (h' ! r) = gnodes scenario_graph \<and> has_node (h' ! r) 1
     | (h', Inl e) \<Rightarrow> False)"
proof -
  from assms(2) have d: "distinct (map fst (gedges (h ! G)))" by (simp add: wf_graph_def)
  have run: "filter_by_weight h G w =
    (h @ [(h ! G)\<lparr>gedges := filter (\<lambda>e. w \<le> get_weight (snd e) 1) (gedges (h ! G))\<rparr>],
     Inr (length h))"
    using assms(1) d by (rule filter_by_weight_value)
  have scen: "case filter_by_weight [scenario_graph] 0 2 of
       (h', Inr r) \<Rightarrow>
         gedges (h' ! r) = [((2, 3), \<lparr>weight = Some 5\<rparr>)] \<and>
         gnodes (h' ! r) = gnodes scenario_graph \<and> has_node (h' ! r) 1
     | (h', Inl e) \<Rightarrow> False"
    by (simp add: filter_by_weight_scenario) (simp add: scenario_graph_def has_node_def)
  from run scen show ?thesis by (auto simp: Let_def)
qed

theorem filter_by_weight_correct_witness:
  "(0::nat) < length [scenario_graph] \<and> wf_graph ([scenario_graph] ! 0) \<and>
   filter_by_weight [scenario_graph] 0 2 =
     ([scenario_graph, scenario_graph\<lparr>gedges := [((2, 3), \<lparr>weight = Some 5\<rparr>)]\<rparr>], Inr 1) \<and>
   get_weight (snd (gedges scenario_graph ! 0)) 1 < 2 \<and>
   gedges scenario_graph ! 0 \<notin> set (gedges (fst (filter_by_weight [scenario_graph] 0 2) ! 1))"
proof -
  have h1: "(0::nat) < length [scenario_graph]" by simp
  have h2: "wf_graph ([scenario_graph] ! 0)" by (simp add: wf_scenario)
  have e: "filter (\<lambda>e. 2 \<le> get_weight (snd e) 1) (gedges scenario_graph) =
      [((2, 3), \<lparr>weight = Some 5\<rparr>)]"
    by (simp add: scenario_graph_def get_weight_def)
  have w: "get_weight (snd (gedges scenario_graph ! 0)) 1 < 2"
    by (simp add: scenario_graph_def get_weight_def)
  have m: "gedges scenario_graph ! 0 \<in> set (gedges scenario_graph)"
    by (simp add: scenario_graph_def)
  note t = filter_by_weight_correct [OF h1 h2, of 2, THEN conjunct1, unfolded Let_def]
  from t e have run: "filter_by_weight [scenario_graph] 0 2 =
     ([scenario_graph, scenario_graph\<lparr>gedges := [((2, 3), \<lparr>weight = Some 5\<rparr>)]\<rparr>], Inr 1)"
    by simp
  from t w m have out: "gedges scenario_graph ! 0 \<notin>
      set (gedges (([scenario_graph] ! 0)\<lparr>gedges := filter (\<lambda>e. 2 \<le> get_weight (snd e) 1) (gedges ([scenario_graph] ! 0))\<rparr>))"
    by simp
  from out e run have "gedges scenario_graph ! 0 \<notin> set (gedges (fst (filter_by_weight [scenario_graph] 0 2) ! 1))"
    by simp
  with h1 h2 run w show ?thesis by blast
qed

text \<open>
  C3, as stated, fails: called with the threshold \<open>-1\<close> on the graph of the scenario,
  \<open>filter_by_weight\<close> raises nothing and returns a graph, a copy of its input.
\<close>

theorem filter_by_weight_negative_counterexample:
  "filter_by_weight [scenario_graph] 0 (- 1) = ([scenario_graph, scenario_graph], Inr 1)"
  by (simp add: filter_by_weight_def scenario_graph_def copy_def remove_edges_from_def get_weight_def)

text \<open>
  C3, amended. For every negative threshold \<open>w\<close>: \<open>filter_by_weight\<close> itself checks nothing
  and returns a new graph with the edges of weight at least \<open>w\<close>; the threshold is rejected
  by the validation of the command line, \<open>validate_arguments\<close>, which exits with status 1
  whenever \<open>min_weight\<close> is negative, with the diagnostic about the threshold when the
  database file and the depth are valid. That happens before any filter runs: \<open>main\<close>
  then ends with that exit, having called neither the loader nor a filter, the store
  still empty.
\<close>

theorem negative_threshold_rejected_by_validation:
  assumes "w < 0"
  shows
   "(G < length h \<and> wf_graph (h ! G) \<longrightarrow>
       filter_by_weight h G w =
         (h @ [(h ! G)\<lparr>gedges := filter (\<lambda>e. w \<le> get_weight (snd e) 1) (gedges (h ! G))\<rparr>],
          Inr (length h))) \<and>
    (args_min_weight a = Some w \<longrightarrow>
       (\<exists>d. validate_arguments path_exists path_is_file a = Inl (SystemExit 1 d))) \<and>
    (args_min_weight a = Some w \<and> path_exists (args_db a) \<and> path_is_file (args_db a) \<and>
     1 \<le> args_depth a \<longrightarrow>
       validate_arguments path_exists path_is_file a = Inl (SystemExit 1 (MinWeightNegative w))) \<and>
    (args_min_weight a = Some w \<longrightarrow>
       (\<exists>d. main path_exists path_is_file load_graph a = ([], [], Inl (SystemExit 1 d)))) \<and>
    (args_min_weight a = Some w \<and> path_exists (args_db a) \<and> path_is_file (args_db a) \<and>
     1 \<le> args_depth a \<longrightarrow>
       main path_exists path_is_file load_graph a =
         ([], [], Inl (SystemExit 1 (MinWeightNegative w))))"
proof (intro conjI impI)
  assume "G < length h \<and> wf_graph (h ! G)"
  then have "G < length h" and "distinct (map fst (gedges (h ! G)))"
    by (simp_all add: wf_graph_def)
  then show "filter_by_weight h G w =
         (h @ [(h ! G)\<lparr>gedges := filter (\<lambda>e. w \<le> get_weight (snd e) 1) (gedges (h ! G))\<rparr>],
          Inr (length h))"
    by (rule filter_by_weight_value)
next
  assume "args_min_weight a = Some w"
  with assms show "\<exists>d. validate_arguments path_exists path_is_file a = Inl (SystemExit 1 d)"
    by (simp add: validate_arguments_def)
next
  assume "args_min_weight a = Some w \<and> path_exists (args_db a) \<and> path_is_file (args_db a) \<and>
     1 \<le> args_depth a"
  with assms show "validate_arguments path_exists path_is_file a = Inl (SystemExit 1 (MinWeightNegative w))"
    by (simp add: validate_arguments_def)
next
  assume "args_min_weight a = Some w"
  with assms have "\<exists>d. validate_arguments path_exists path_is_file a = Inl (SystemExit 1 d)"
    by (simp add: validate_arguments_def)
  then obtain d where "validate_arguments path_exists path_is_file a = Inl (SystemExit 1 d)" ..
  then have "main path_exists path_is_file load_graph a = ([], [], Inl (SystemExit 1 d))"
    by (rule main_rejected)
  then show "\<exists>d. main path_exists path_is_file load_graph a = ([], [], Inl (SystemExit 1 d))" ..
next
  assume "args_min_weight a = Some w \<and> path_exists (args_db a) \<and> path_is_file (args_db a) \<and>
     1 \<le> args_depth a"
  with assms have "validate_arguments path_exists path_is_file a = Inl (SystemExit 1 (MinWeightNegative w))"
    by (simp add: validate_arguments_def)
  then show "main path_exists path_is_file load_graph a =
         ([], [], Inl (SystemExit 1 (MinWeightNegative w)))"
    by (rule main_rejected)
qed

theorem negative_threshold_rejected_by_validation_witness:
  "(- 1 :: int) < 0 \<and> (0::nat) < length [scenario_graph] \<and> wf_graph ([scenario_graph] ! 0) \<and>
   filter_by_weight [scenario_graph] 0 (- 1) =
     ([scenario_graph, scenario_graph\<lparr>gedges := gedges scenario_graph\<rparr>], Inr 1) \<and>
   args_min_weight (scenario_args (Some (- 1))) = Some (- 1) \<and>
   validate_arguments any_path any_path (scenario_args (Some (- 1))) =
     Inl (SystemExit 1 (MinWeightNegative (- 1))) \<and>
   main any_path any_path scenario_db (scenario_args (Some (- 1))) =
     ([], [], Inl (SystemExit 1 (MinWeightNegative (- 1)))) \<and>
   main any_path any_path scenario_db (scenario_args (Some 2)) =
     ([LoadGraph (lit ''crawler.db''), FilterByWeight 2],
      [scenario_graph, scenario_graph\<lparr>gedges := [((2, 3), \<lparr>weight = Some 5\<rparr>)]\<rparr>], Inr 1)"
proof -
  have h0: "(- 1 :: int) < 0" by simp
  have h1: "(0::nat) < length [scenario_graph] \<and> wf_graph ([scenario_graph] ! 0)"
    by (simp add: wf_scenario)
  have e: "filter (\<lambda>e. - 1 \<le> get_weight (snd e) 1) (gedges scenario_graph) = gedges scenario_graph"
    by (simp add: scenario_graph_def get_weight_def)
  have valid: "args_min_weight (scenario_args (Some (- 1))) = Some (- 1) \<and>
      any_path (args_db (scenario_args (Some (- 1)))) \<and>
      any_path (args_db (scenario_args (Some (- 1)))) \<and>
      1 \<le> args_depth (scenario_args (Some (- 1)))"
    by (simp add: scenario_args_def any_path_def)
  note t = negative_threshold_rejected_by_validation [OF h0]
  from t [of 0 "[scenario_graph]", THEN conjunct1, THEN mp, OF h1] e
  have run: "filter_by_weight [scenario_graph] 0 (- 1) =
     ([scenario_graph, scenario_graph\<lparr>gedges := gedges scenario_graph\<rparr>], Inr 1)"
    by simp
  note t2 = t [of _ _ "scenario_args (Some (- 1))" any_path any_path scenario_db,
      THEN conjunct2, THEN conjunct2]
  from t2 [THEN conjunct1, THEN mp, OF valid]
  have v: "validate_arguments any_path any_path (scenario_args (Some (- 1))) =
     Inl (SystemExit 1 (MinWeightNegative (- 1)))" .
  from t2 [THEN conjunct2, THEN conjunct2, THEN mp, OF valid]
  have m: "main any_path any_path scenario_db (scenario_args (Some (- 1))) =
     ([], [], Inl (SystemExit 1 (MinWeightNegative (- 1))))" .
  from valid have a: "args_min_weight (scenario_args (Some (- 1))) = Some (- 1)" by simp
  from h0 h1 run a v m main_scenario show ?thesis by blast
qed

text \<open>
  C6. For every graph, the isolation filter succeeds, and applied to its own result it
  succeeds again with a graph of the same number of nodes and the same number of edges
  (the same graph, in fact).
\<close>

theorem remove_isolated_idempotent:
  assumes "G < length h"
  shows
   "(case remove_isolated h G of
       (h1, Inr G1) \<Rightarrow>
         (case remove_isolated h1 G1 of
            (h2, Inr G2) \<Rightarrow>
              number_of_nodes (h2 ! G2) = number_of_nodes (h1 ! G1) \<and>
              number_of_edges (h2 ! G2) = number_of_edges (h1 ! G1) \<and>
              h2 ! G2 = h1 ! G1
          | (h2, Inl e) \<Rightarrow> False)
     | (h1, Inl e) \<Rightarrow> False)"
proof -
  define g1 where "g1 = (h ! G)\<lparr>gnodes := filter (\<lambda>nd. degree (h ! G) (fst nd) \<noteq> 0) (gnodes (h ! G))\<rparr>"
  have first: "remove_isolated h G = (h @ [g1], Inr (length h))"
    unfolding g1_def using assms by (rule remove_isolated_value)
  have second: "remove_isolated (h @ [g1]) (length h) = (h @ [g1, g1], Inr (Suc (length h)))"
    unfolding g1_def using assms by (rule remove_isolated_twice)
  have "(h @ [g1, g1]) ! Suc (length h) = g1" and "(h @ [g1]) ! length h = g1"
    by (simp_all add: nth_append)
  with first second show ?thesis by simp
qed

theorem remove_isolated_idempotent_witness:
  "(0::nat) < length [scenario_graph\<lparr>gedges := [((2, 3), \<lparr>weight = Some 5\<rparr>)]\<rparr>] \<and>
   remove_isolated [scenario_graph\<lparr>gedges := [((2, 3), \<lparr>weight = Some 5\<rparr>)]\<rparr>] 0 =
     ([scenario_graph\<lparr>gedges := [((2, 3), \<lparr>weight = Some 5\<rparr>)]\<rparr>,
       \<lparr>gnodes = [(2, loaded_node ''b.com''), (3, loaded_node ''c.com'')],
        gedges = [((2, 3), \<lparr>weight = Some 5\<rparr>)]\<rparr>], Inr 1) \<and>
   (case remove_isolated
           [scenario_graph\<lparr>gedges := [((2, 3), \<lparr>weight = Some 5\<rparr>)]\<rparr>,
            \<lparr>gnodes = [(2, loaded_node ''b.com''), (3, loaded_node ''c.com'')],
             gedges = [((2, 3), \<lparr>weight = Some 5\<rparr>)]\<rparr>] 1 of
      (h2, Inr G2) \<Rightarrow> number_of_nodes (h2 ! G2) = 2 \<and> number_of_edges (h2 ! G2) = 1
    | (h2, Inl e) \<Rightarrow> False)"
proof -
  let ?g0 = "scenario_graph\<lparr>gedges := [((2, 3), \<lparr>weight = Some 5\<rparr>)]\<rparr>"
  let ?g1 = "\<lparr>gnodes = [(2, loaded_node ''b.com''), (3, loaded_node ''c.com'')],
        gedges = [((2, 3), \<lparr>weight = Some 5\<rparr>)]\<rparr>"
  have h1: "(0::nat) < length [?g0]" by simp
  have run: "remove_isolated [?g0] 0 = ([?g0, ?g1], Inr 1)"
    by (simp add: remove_isolated_def isolates_def degree_def copy_def remove_nodes_from_def
        scenario_graph_def)
  have n: "number_of_nodes ?g1 = 2" "number_of_edges ?g1 = 1"
    by (simp_all add: number_of_nodes_def number_of_edges_def)
  from remove_isolated_idempotent [OF h1] run n
  have "case remove_isolated [?g0, ?g1] 1 of
      (h2, Inr G2) \<Rightarrow> number_of_nodes (h2 ! G2) = 2 \<and> number_of_edges (h2 ! G2) = 1
    | (h2, Inl e) \<Rightarrow> False"
    by (auto split: prod.splits sum.splits)
  with h1 run show ?thesis by blast
qed

text \<open>
  C7. Each of the three filters leaves every graph object that existed before the call
  as it was, the input among them, and what it returns is the reference of an object
  that the call allocated; when the extraction raises, the store is the one it was
  given.
\<close>

theorem filters_leave_input_unchanged:
  assumes "G < length h"
  shows
   "returns_new_graph h (filter_by_weight h G w) \<and> fst (filter_by_weight h G w) ! G = h ! G \<and>
    returns_new_graph h (remove_isolated h G) \<and> fst (remove_isolated h G) ! G = h ! G \<and>
    returns_new_graph h (extract_subgraph h G d k) \<and> fst (extract_subgraph h G d k) ! G = h ! G"
proof -
  have a: "returns_new_graph h (filter_by_weight h G w) \<and> fst (filter_by_weight h G w) ! G = h ! G"
    using returns_new_graph_alloc [OF assms] by (simp add: filter_by_weight_run [OF assms])
  have b: "returns_new_graph h (remove_isolated h G) \<and> fst (remove_isolated h G) ! G = h ! G"
    using returns_new_graph_alloc [OF assms] by (simp add: remove_isolated_value [OF assms])
  have c: "returns_new_graph h (extract_subgraph h G d k) \<and> fst (extract_subgraph h G d k) ! G = h ! G"
    using extract_subgraph_cases [of h G d k] returns_new_graph_alloc [OF assms] returns_new_graph_raise [of h]
    by auto
  from a b c show ?thesis by blast
qed

theorem filters_leave_input_unchanged_witness:
  "(0::nat) < length [scenario_graph] \<and>
   fst (filter_by_weight [scenario_graph] 0 2) ! 0 = scenario_graph \<and>
   snd (filter_by_weight [scenario_graph] 0 2) = Inr 1 \<and>
   fst (remove_isolated [scenario_graph] 0) ! 0 = scenario_graph \<and>
   fst (extract_subgraph [scenario_graph] 0 (lit ''b.com'') 1) ! 0 = scenario_graph \<and>
   returns_new_graph [scenario_graph] (extract_subgraph [scenario_graph] 0 (lit ''b.com'') 1)"
proof -
  have h1: "(0::nat) < length [scenario_graph]" by simp
  note t = filters_leave_input_unchanged [OF h1]
  have "snd (filter_by_weight [scenario_graph] 0 2) = Inr 1"
    by (simp add: filter_by_weight_scenario)
  with h1 t [of 2] t [of _ "lit ''b.com''" 1] show ?thesis by simp
qed

section \<open>The claims about the positions\<close>

text \<open>
  C4, as stated, fails for a negative scale and for a negative jitter. With scale \<open>-10\<close>
  and jitter 0, node 2 of a two-node layout gets the coordinate \<open>-10\<close>, below \<open>0 - jitter\<close>;
  with scale 10 and jitter \<open>-1\<close> no jitter is added and node 2 gets the coordinate 10, above
  \<open>scale + jitter\<close>.
\<close>

theorem normalize_positions_range_counterexample:
  "normalize_positions [(1, (0, 0)), (2, (1, 1))] (Some (- 10)) (Some 0) half_draws =
     [(1, (0, 0)), (2, (- 10, - 10))] \<and>
   \<not> (0 - 0 \<le> fst (snd (normalize_positions [(1, (0, 0)), (2, (1, 1))] (Some (- 10)) (Some 0) half_draws ! 1))) \<and>
   normalize_positions [(1, (0, 0)), (2, (1, 1))] (Some 10) (Some (- 1)) half_draws =
     [(1, (0, 0)), (2, (10, 10))] \<and>
   \<not> (fst (snd (normalize_positions [(1, (0, 0)), (2, (1, 1))] (Some 10) (Some (- 1)) half_draws ! 1)) \<le> 10 + (- 1))"
  by (simp add: normalize_positions_def)

text \<open>
  C4, amended. For every position mapping that is not empty, every scale \<open>S\<close> that is not
  negative and every jitter \<open>j\<close> that is not negative (the outputs of \<open>random()\<close> lying
  between 0 and 1), all of magnitude at most half the largest finite float: no
  difference from the minimum, no range and neither \<open>j - (-j)\<close> nor \<open>S + j\<close> exceeds the
  largest finite float, so that the computation stays among the finite floats; every
  coordinate produced lies in \<open>[0 - j, S + j]\<close> and the keys are those of the input. When
  \<open>j = 0\<close>, on each axis some node has the coordinate 0; some node has the coordinate \<open>S\<close>
  when two inputs differ on that axis; and when all inputs share their coordinate on an
  axis, the range of that axis is taken as 1 and every node has the coordinate 0 there.
  (Beyond that magnitude the floats of the code overflow: with the coordinates \<open>-1e308\<close>
  and \<open>1e308\<close> on an axis the range is infinite and a coordinate comes out as NaN.)
\<close>

theorem normalize_positions_range:
  assumes "pos \<noteq> []" and "0 \<le> S" and "0 \<le> j" and "\<forall>i. 0 \<le> draws i \<and> draws i \<le> 1"
    and "within_float_range pos S j"
  shows
   "((\<forall>p\<in>set pos.
        \<bar>fst (snd p) - py_min (map (\<lambda>p. fst (snd p)) pos)\<bar> \<le> max_float \<and>
        \<bar>snd (snd p) - py_min (map (\<lambda>p. snd (snd p)) pos)\<bar> \<le> max_float) \<and>
     py_max (map (\<lambda>p. fst (snd p)) pos) - py_min (map (\<lambda>p. fst (snd p)) pos) \<le> max_float \<and>
     py_max (map (\<lambda>p. snd (snd p)) pos) - py_min (map (\<lambda>p. snd (snd p)) pos) \<le> max_float \<and>
     j - (- j) \<le> max_float \<and> S + j \<le> max_float) \<and>
    (\<forall>p\<in>set (normalize_positions pos (Some S) (Some j) draws).
        0 - j \<le> fst (snd p) \<and> fst (snd p) \<le> S + j \<and>
        0 - j \<le> snd (snd p) \<and> snd (snd p) \<le> S + j) \<and>
    map fst (normalize_positions pos (Some S) (Some j) draws) = map fst pos \<and>
    (j = 0 \<longrightarrow>
       (\<exists>p\<in>set (normalize_positions pos (Some S) (Some j) draws). fst (snd p) = 0) \<and>
       (\<exists>p\<in>set (normalize_positions pos (Some S) (Some j) draws). snd (snd p) = 0) \<and>
       ((\<exists>a\<in>set pos. \<exists>b\<in>set pos. fst (snd a) \<noteq> fst (snd b)) \<longrightarrow>
          (\<exists>p\<in>set (normalize_positions pos (Some S) (Some j) draws). fst (snd p) = S)) \<and>
       ((\<exists>a\<in>set pos. \<exists>b\<in>set pos. snd (snd a) \<noteq> snd (snd b)) \<longrightarrow>
          (\<exists>p\<in>set (normalize_positions pos (Some S) (Some j) draws). snd (snd p) = S)) \<and>
       ((\<forall>a\<in>set pos. \<forall>b\<in>set pos. fst (snd a) = fst (snd b)) \<longrightarrow>
          (\<forall>p\<in>set (normalize_positions pos (Some S) (Some j) draws). fst (snd p) = 0)) \<and>
       ((\<forall>a\<in>set pos. \<forall>b\<in>set pos. snd (snd a) = snd (snd b)) \<longrightarrow>
          (\<forall>p\<in>set (normalize_positions pos (Some S) (Some j) draws). snd (snd p) = 0)))"
proof (intro conjI impI ballI)
  from assms(5) have bx: "\<forall>p\<in>set pos. \<bar>fst (snd p)\<bar> \<le> max_float / 2"
    and by': "\<forall>p\<in>set pos. \<bar>snd (snd p)\<bar> \<le> max_float / 2"
    and bS: "\<bar>S\<bar> \<le> max_float / 2" and bj: "\<bar>j\<bar> \<le> max_float / 2"
    by (simp_all add: within_float_range_def list_all_iff)
  {
    fix p assume p: "p \<in> set pos"
    from p show "\<bar>fst (snd p) - py_min (map (\<lambda>p. fst (snd p)) pos)\<bar> \<le> max_float"
      by (rule no_overflow_axis(2) [OF assms(1) bx])
    from p show "\<bar>snd (snd p) - py_min (map (\<lambda>p. snd (snd p)) pos)\<bar> \<le> max_float"
      by (rule no_overflow_axis(2) [OF assms(1) by'])
  }
  show "py_max (map (\<lambda>p. fst (snd p)) pos) - py_min (map (\<lambda>p. fst (snd p)) pos) \<le> max_float"
    by (rule no_overflow_axis(1) [OF assms(1) bx])
  show "py_max (map (\<lambda>p. snd (snd p)) pos) - py_min (map (\<lambda>p. snd (snd p)) pos) \<le> max_float"
    by (rule no_overflow_axis(1) [OF assms(1) by'])
  from bj show "j - (- j) \<le> max_float" by linarith
  from bS bj show "S + j \<le> max_float" by linarith
next
  fix p assume "p \<in> set (normalize_positions pos (Some S) (Some j) draws)"
  from normalize_positions_bounds [OF assms(2,3,4) this]
  show "0 - j \<le> fst (snd p)" "fst (snd p) \<le> S + j" "0 - j \<le> snd (snd p)" "snd (snd p) \<le> S + j"
    by simp_all
next
  show "map fst (normalize_positions pos (Some S) (Some j) draws) = map fst pos"
    by (simp add: normalize_positions_unfold [OF assms(1)] normalize_loop_keys)
next
  assume "j = 0"
  then have nj: "\<not> j > 0" by simp
  from normalize_positions_lower [OF assms(1) nj]
  show "\<exists>p\<in>set (normalize_positions pos (Some S) (Some j) draws). fst (snd p) = 0"
    and "\<exists>p\<in>set (normalize_positions pos (Some S) (Some j) draws). snd (snd p) = 0" by blast+
next
  assume "j = 0" and sp: "\<exists>a\<in>set pos. \<exists>b\<in>set pos. fst (snd a) \<noteq> fst (snd b)"
  then have nj: "\<not> j > 0" by simp
  from sp obtain a b where "a \<in> set pos" "b \<in> set pos" "fst (snd a) \<noteq> fst (snd b)" by blast
  then have "py_max (map (\<lambda>p. fst (snd p)) pos) \<noteq> py_min (map (\<lambda>p. fst (snd p)) pos)"
    by (rule spread_coordinate)
  then show "\<exists>p\<in>set (normalize_positions pos (Some S) (Some j) draws). fst (snd p) = S"
    by (rule normalize_positions_upper(1) [OF assms(1) nj])
next
  assume "j = 0" and sp: "\<exists>a\<in>set pos. \<exists>b\<in>set pos. snd (snd a) \<noteq> snd (snd b)"
  then have nj: "\<not> j > 0" by simp
  from sp obtain a b where "a \<in> set pos" "b \<in> set pos" "snd (snd a) \<noteq> snd (snd b)" by blast
  then have "py_max (map (\<lambda>p. snd (snd p)) pos) \<noteq> py_min (map (\<lambda>p. snd (snd p)) pos)"
    by (rule spread_coordinate)
  then show "\<exists>p\<in>set (normalize_positions pos (Some S) (Some j) draws). snd (snd p) = S"
    by (rule normalize_positions_upper(2) [OF assms(1) nj])
next
  fix p
  assume "j = 0" and same: "\<forall>a\<in>set pos. \<forall>b\<in>set pos. fst (snd a) = fst (snd b)"
    and el: "p \<in> set (normalize_positions pos (Some S) (Some j) draws)"
  then have nj: "\<not> j > 0" by simp
  from assms(1) same
  have "py_max (map (\<lambda>p. fst (snd p)) pos) = py_min (map (\<lambda>p. fst (snd p)) pos)"
    by (rule same_coordinate)
  from normalize_positions_degenerate(1) [OF assms(1) nj this el] show "fst (snd p) = 0" .
next
  fix p
  assume "j = 0" and same: "\<forall>a\<in>set pos. \<forall>b\<in>set pos. snd (snd a) = snd (snd b)"
    and el: "p \<in> set (normalize_positions pos (Some S) (Some j) draws)"
  then have nj: "\<not> j > 0" by simp
  from assms(1) same
  have "py_max (map (\<lambda>p. snd (snd p)) pos) = py_min (map (\<lambda>p. snd (snd p)) pos)"
    by (rule same_coordinate)
  from normalize_positions_degenerate(2) [OF assms(1) nj this el] show "snd (snd p) = 0" .
qed



theorem normalize_positions_range_witness:
  "[(1, (0, 5)), (2, (1, 5))] \<noteq> ([] :: positions) \<and> (0::real) \<le> 10 \<and> (0::real) \<le> 1 \<and>
   (\<forall>i. 0 \<le> half_draws i \<and> half_draws i \<le> 1) \<and>
   within_float_range [(1, (0, 5)), (2, (1, 5))] 10 1 \<and>
   within_float_range [(1, (0, 5)), (2, (1, 5))] 10 0 \<and>
   list_all (\<lambda>p. 0 - 1 \<le> fst (snd p) \<and> fst (snd p) \<le> 10 + 1 \<and>
                  0 - 1 \<le> snd (snd p) \<and> snd (snd p) \<le> 10 + 1)
     (normalize_positions [(1, (0, 5)), (2, (1, 5))] (Some 10) (Some 1) half_draws) \<and>
   (\<exists>p\<in>set (normalize_positions [(1, (0, 5)), (2, (1, 5))] (Some 10) (Some 0) half_draws).
      fst (snd p) = 10) \<and>
   list_all (\<lambda>p. snd (snd p) = 0)
     (normalize_positions [(1, (0, 5)), (2, (1, 5))] (Some 10) (Some 0) half_draws)"
proof -
  let ?pos = "[(1, (0, 5)), (2, (1, 5))] :: positions"
  have h1: "?pos \<noteq> []" by simp
  have h2: "(0::real) \<le> 10" by simp
  have h3: "(0::real) \<le> 1" by simp
  have h3': "(0::real) \<le> 0" by simp
  note h4 = half_draws_unit
  have h5: "within_float_range ?pos 10 1" and h5': "within_float_range ?pos 10 0"
    using half_max_float_ge by (simp_all add: within_float_range_def)
  have spread: "\<exists>a\<in>set ?pos. \<exists>b\<in>set ?pos. fst (snd a) \<noteq> fst (snd b)"
    by (rule bexI [of _ "(1, (0, 5))"], rule bexI [of _ "(2, (1, 5))"]) simp_all
  have same: "\<forall>a\<in>set ?pos. \<forall>b\<in>set ?pos. snd (snd a) = snd (snd b)" by simp
  note jit = normalize_positions_range [OF h1 h2 h3 h4 h5, THEN conjunct2, THEN conjunct1]
  note plain = normalize_positions_range [OF h1 h2 h3' h4 h5', THEN conjunct2, THEN conjunct2,
      THEN conjunct2, THEN mp, OF refl]
  from jit have a: "list_all (\<lambda>p. 0 - 1 \<le> fst (snd p) \<and> fst (snd p) \<le> 10 + 1 \<and>
                  0 - 1 \<le> snd (snd p) \<and> snd (snd p) \<le> 10 + 1)
     (normalize_positions ?pos (Some 10) (Some 1) half_draws)"
    unfolding list_all_iff .
  from plain spread have b: "\<exists>p\<in>set (normalize_positions ?pos (Some 10) (Some 0) half_draws). fst (snd p) = 10"
    by blast
  from plain same have "\<forall>p\<in>set (normalize_positions ?pos (Some 10) (Some 0) half_draws). snd (snd p) = 0"
    by blast
  then have c: "list_all (\<lambda>p. snd (snd p) = 0) (normalize_positions ?pos (Some 10) (Some 0) half_draws)"
    unfolding list_all_iff .
  from h1 h2 h3 h4 h5 h5' a b c show ?thesis by blast
qed

text \<open>
  C5, as stated, fails: called without a scale, \<open>normalize_positions\<close> rescales into
  \<open>[0, 10]\<close>, its own default being 10.0, not 50.0.
\<close>

theorem normalize_positions_default_scale_counterexample:
  "normalize_positions [(1, (0, 0)), (2, (1, 1))] None None half_draws = [(1, (0, 0)), (2, (10, 10))]"
  by (simp add: normalize_positions_def)

text \<open>
  C5, amended. The default scale 50.0 is that of \<open>render_cosmograph_csv\<close>, which passes
  its scale to the normalization by name: when its caller gives no scale, the
  coordinates it hands to the exporters are those of the normalization with scale 50,
  they lie in \<open>[0 - 0.05, 50 + 0.05]\<close> with the default jitter, and without jitter the
  boundaries 0 and (when two inputs differ) 50 are attained. The default of the scale
  parameter of \<open>normalize_positions\<close> itself is 10.0.
\<close>

theorem default_scale_of_the_export:
  "normalize_positions pos None jitter_arg draws =
     normalize_positions pos (Some 10) jitter_arg draws \<and>
   render_cosmograph_csv positions None jitter_arg draws =
     normalize_positions positions (Some 50)
       (Some (case jitter_arg of None \<Rightarrow> 5 / 100 | Some j \<Rightarrow> j)) draws \<and>
   ((\<forall>i. 0 \<le> draws i \<and> draws i \<le> 1) \<longrightarrow>
      (\<forall>p\<in>set (render_cosmograph_csv positions None None draws).
         0 - 5 / 100 \<le> fst (snd p) \<and> fst (snd p) \<le> 50 + 5 / 100 \<and>
         0 - 5 / 100 \<le> snd (snd p) \<and> snd (snd p) \<le> 50 + 5 / 100)) \<and>
   (positions \<noteq> [] \<longrightarrow>
      (\<exists>p\<in>set (render_cosmograph_csv positions None (Some 0) draws). fst (snd p) = 0) \<and>
      ((\<exists>a\<in>set positions. \<exists>b\<in>set positions. fst (snd a) \<noteq> fst (snd b)) \<longrightarrow>
         (\<exists>p\<in>set (render_cosmograph_csv positions None (Some 0) draws). fst (snd p) = 50)))"
proof (intro conjI impI ballI)
  show "normalize_positions pos None jitter_arg draws =
     normalize_positions pos (Some 10) jitter_arg draws"
    by (rule normalize_positions_defaults)
next
  show "render_cosmograph_csv positions None jitter_arg draws =
     normalize_positions positions (Some 50)
       (Some (case jitter_arg of None \<Rightarrow> 5 / 100 | Some j \<Rightarrow> j)) draws"
    by (simp add: render_cosmograph_csv_def)
next
  fix p
  assume d: "\<forall>i. 0 \<le> draws i \<and> draws i \<le> 1"
    and "p \<in> set (render_cosmograph_csv positions None None draws)"
  then have el: "p \<in> set (normalize_positions positions (Some 50) (Some (5 / 100)) draws)"
    by (simp add: render_cosmograph_csv_def)
  have "(0::real) \<le> 50" "(0::real) \<le> 5 / 100" by simp_all
  from normalize_positions_bounds [OF this d el]
  show "0 - 5 / 100 \<le> fst (snd p)" "fst (snd p) \<le> 50 + 5 / 100"
    "0 - 5 / 100 \<le> snd (snd p)" "snd (snd p) \<le> 50 + 5 / 100"
    by simp_all
next
  assume ne: "positions \<noteq> []"
  have nj: "\<not> (0::real) > 0" by simp
  from normalize_positions_lower(1) [OF ne nj, of 50 draws]
  show "\<exists>p\<in>set (render_cosmograph_csv positions None (Some 0) draws). fst (snd p) = 0"
    by (simp add: render_cosmograph_csv_def)
next
  assume ne: "positions \<noteq> []"
    and sp: "\<exists>a\<in>set positions. \<exists>b\<in>set positions. fst (snd a) \<noteq> fst (snd b)"
  have nj: "\<not> (0::real) > 0" by simp
  from sp obtain a b where "a \<in> set positions" "b \<in> set positions" "fst (snd a) \<noteq> fst (snd b)"
    by blast
  then have "py_max (map (\<lambda>p. fst (snd p)) positions) \<noteq> py_min (map (\<lambda>p. fst (snd p)) positions)"
    by (rule spread_coordinate)
  from normalize_positions_upper(1) [OF ne nj this, of 50 draws]
  show "\<exists>p\<in>set (render_cosmograph_csv positions None (Some 0) draws). fst (snd p) = 50"
    by (simp add: render_cosmograph_csv_def)
qed

theorem default_scale_of_the_export_witness:
  "(\<forall>i. 0 \<le> half_draws i \<and> half_draws i \<le> 1) \<and>
   [(1, (0, 0)), (2, (1, 1))] \<noteq> ([] :: positions) \<and>
   list_all (\<lambda>p. 0 - 5 / 100 \<le> fst (snd p) \<and> fst (snd p) \<le> 50 + 5 / 100 \<and>
                  0 - 5 / 100 \<le> snd (snd p) \<and> snd (snd p) \<le> 50 + 5 / 100)
     (render_cosmograph_csv [(1, (0, 0)), (2, (1, 1))] None None half_draws) \<and>
   render_cosmograph_csv [(1, (0, 0)), (2, (1, 1))] None None half_draws =
     [(1, (0, 0)), (2, (50, 50))] \<and>
   (\<exists>p\<in>set (render_cosmograph_csv [(1, (0, 0)), (2, (1, 1))] None (Some 0) half_draws).
      fst (snd p) = 50)"
proof -
  let ?pos = "[(1, (0, 0)), (2, (1, 1))] :: positions"
  note h = half_draws_unit
  have ne: "?pos \<noteq> []" by simp
  have sp: "\<exists>a\<in>set ?pos. \<exists>b\<in>set ?pos. fst (snd a) \<noteq> fst (snd b)"
    by (rule bexI [of _ "(1, (0, 0))"], rule bexI [of _ "(2, (1, 1))"]) simp_all
  note t = default_scale_of_the_export [of _ _ _ ?pos]
  from t [of _ None half_draws, THEN conjunct2, THEN conjunct2, THEN conjunct1, THEN mp, OF h]
  have a: "list_all (\<lambda>p. 0 - 5 / 100 \<le> fst (snd p) \<and> fst (snd p) \<le> 50 + 5 / 100 \<and>
                  0 - 5 / 100 \<le> snd (snd p) \<and> snd (snd p) \<le> 50 + 5 / 100)
     (render_cosmograph_csv ?pos None None half_draws)"
    unfolding list_all_iff .
  from t [of _ None half_draws, THEN conjunct2, THEN conjunct1]
  have b: "render_cosmograph_csv ?pos None None half_draws = [(1, (0, 0)), (2, (50, 50))]"
    by (simp add: normalize_positions_def uniform_def half_draws_def)
  from t [of _ None half_draws, THEN conjunct2, THEN conjunct2, THEN conjunct2, THEN mp, OF ne] sp
  have c: "\<exists>p\<in>set (render_cosmograph_csv ?pos None (Some 0) half_draws). fst (snd p) = 50"
    by blast
  from h ne a b c show ?thesis by blast
qed

section \<open>The claim about the colour of a node\<close>



section \<open>The claims about the sanitizer\<close>

text \<open>
  C8. For every input, \<open>None\<close> or a string, whatever the Unicode database and the hash
  function, the sanitized domain name is not empty. The input \<open>example,com\<close> gives
  \<open>example.com\<close>, and the input \<open>!!!\<close> gives the placeholder \<open>invalid_domain_\<close> followed by the
  hash of the input modulo 10000, which is not empty.
\<close>

theorem sanitize_domain_name_nonempty:
  "sanitize_domain_name uni hash dmn \<noteq> [] \<and>
   sanitize_domain_name uni hash (Some (lit ''example,com'')) = lit ''example.com'' \<and>
   sanitize_domain_name uni hash (Some (lit ''!!!'')) =
     lit ''invalid_domain_'' @ str_int (hash (lit ''!!!'') mod 10000) \<and>
   sanitize_domain_name uni hash (Some (lit ''!!!'')) \<noteq> []"
  using sanitize_nonempty [of uni hash dmn] sanitize_nonempty [of uni hash "Some (lit ''!!!'')"]
    sanitize_example_comma [of uni hash] sanitize_example_bang [of uni hash]
  by blast

theorem sanitize_domain_name_nonempty_witness:
  "sanitize_domain_name ascii_only sample_hash (Some (lit '' ,.- '')) \<noteq> [] \<and>
   sanitize_domain_name ascii_only sample_hash (Some (lit ''!!!'')) = lit ''invalid_domain_7655'' \<and>
   sanitize_domain_name ascii_only sample_hash (Some (lit ''example,com'')) = lit ''example.com''"
proof -
  note t = sanitize_domain_name_nonempty [of ascii_only sample_hash "Some (lit '' ,.- '')"]
  have "str_int (sample_hash (lit ''!!!'') mod 10000) = lit ''7655''"
    by (simp add: sample_hash_def str_int_def str_nat.simps lit_def)
  with t show ?thesis by (simp add: lit_def)
qed

text \<open>
  C10, as stated, fails for a node without a domain attribute (one that an edge row
  created): its exported label is its identifier, here \<open>7\<close>, not \<open>unknown\<close>.
\<close>

theorem node_label_without_domain_counterexample:
  "node_label ascii_only sample_hash 7
     \<lparr>domain = None, description = None, crawl_count = None, depth = None\<rparr> = lit ''7'' \<and>
   node_label ascii_only sample_hash 7
     \<lparr>domain = None, description = None, crawl_count = None, depth = None\<rparr> \<noteq> lit ''unknown''"
  by (simp add: node_label_without_domain str_int_7) (simp add: lit_def)

text \<open>
  C10, amended. When the input of the sanitizer is \<open>None\<close> or the empty string, the result
  is the constant \<open>unknown\<close>, which is not the placeholder made from a hash; so the
  exported label of a node whose domain is the empty string is \<open>unknown\<close>. A node that has
  no domain attribute is labelled with \<open>str(node_id)\<close>, which is never \<open>unknown\<close>.
\<close>

theorem sanitize_missing_domain_is_unknown:
  "sanitize_domain_name uni hash None = lit ''unknown'' \<and>
   sanitize_domain_name uni hash (Some []) = lit ''unknown'' \<and>
   lit ''unknown'' \<noteq> lit ''invalid_domain_'' @ str_int (hash' d mod 10000) \<and>
   (domain data = Some [] \<longrightarrow> node_label uni hash node_id data = lit ''unknown'') \<and>
   (domain data = None \<longrightarrow>
      node_label uni hash node_id data = str_int node_id \<and>
      node_label uni hash node_id data \<noteq> lit ''unknown'')"
proof (intro conjI impI)
  show "sanitize_domain_name uni hash None = lit ''unknown''"
    and "sanitize_domain_name uni hash (Some []) = lit ''unknown''"
    by (rule sanitize_missing)+
  show "lit ''unknown'' \<noteq> lit ''invalid_domain_'' @ str_int (hash' d mod 10000)"
    by (rule unknown_not_placeholder)
next
  assume "domain data = Some []"
  then show "node_label uni hash node_id data = lit ''unknown''"
    by (simp add: node_label_def sanitize_missing)
next
  assume n: "domain data = None"
  then show l: "node_label uni hash node_id data = str_int node_id"
    by (rule node_label_without_domain)
  from str_int_shape [of node_id]
  have "list_all (\<lambda>c. (48 \<le> c \<and> c \<le> 57) \<or> c = 45) (str_int node_id)" by simp
  then have "str_int node_id \<noteq> lit ''unknown''"
    by (auto simp: list_all_iff lit_def)
  with l show "node_label uni hash node_id data \<noteq> lit ''unknown''" by simp
qed

theorem sanitize_missing_domain_is_unknown_witness:
  "domain \<lparr>domain = Some [], description = Some [], crawl_count = Some 1, depth = Some 0\<rparr> = Some [] \<and>
   node_label ascii_only sample_hash 7
     \<lparr>domain = Some [], description = Some [], crawl_count = Some 1, depth = Some 0\<rparr> = lit ''unknown'' \<and>
   domain \<lparr>domain = None, description = None, crawl_count = None, depth = None\<rparr> = None \<and>
   node_label ascii_only sample_hash (- 12)
     \<lparr>domain = None, description = None, crawl_count = None, depth = None\<rparr> = lit ''-12'' \<and>
   sanitize_domain_name ascii_only sample_hash None = lit ''unknown'' \<and>
   sanitize_domain_name ascii_only sample_hash (Some (lit '''')) = lit ''unknown''"
proof -
  let ?data = "\<lparr>domain = Some [], description = Some [], crawl_count = Some 1, depth = Some 0\<rparr>"
  let ?bare = "\<lparr>domain = None, description = None, crawl_count = None, depth = None\<rparr>"
  note t = sanitize_missing_domain_is_unknown [of ascii_only sample_hash sample_hash "[]" ?data 7]
  note t' = sanitize_missing_domain_is_unknown [of ascii_only sample_hash sample_hash "[]" ?bare "- 12"]
  have h: "domain ?data = Some []" by simp
  have h': "domain ?bare = None" by simp
  from t [THEN conjunct2, THEN conjunct2, THEN conjunct2, THEN conjunct1, THEN mp, OF h]
  have l: "node_label ascii_only sample_hash 7 ?data = lit ''unknown''" .
  have s: "str_int (- 12) = lit ''-12''"
    by (simp add: str_int_def str_nat.simps lit_def)
  from t' [THEN conjunct2, THEN conjunct2, THEN conjunct2, THEN conjunct2, THEN mp, OF h'] s
  have l': "node_label ascii_only sample_hash (- 12) ?bare = lit ''-12''" by simp
  from t have a: "sanitize_domain_name ascii_only sample_hash None = lit ''unknown''"
    and b: "sanitize_domain_name ascii_only sample_hash (Some (lit '''')) = lit ''unknown''"
    by (simp_all add: lit_def)
  from h l h' l' a b show ?thesis by blast
qed

end
